theory Spec2Isabelle
  imports Main "HOL-Library.Sublist" "HOL-Library.Log_Nat"
begin

section \<open>JavaScript values used by the client\<close>

text \<open>
  A JavaScript string is modelled by the list of its UTF-8 bytes (\<^typ>\<open>string\<close>), and a
  value that may be \<^verbatim>\<open>null\<close> or \<^verbatim>\<open>undefined\<close> by \<^typ>\<open>'a option\<close>.
  \<^verbatim>\<open>String.prototype.toLowerCase\<close> is modelled on the ASCII letters; every other byte
  is left alone. For the five keywords the client compares against this agrees with the
  Unicode mapping: the only non-ASCII characters whose lower case contains an ASCII letter
  are U+212A (to \<^verbatim>\<open>k\<close>) and U+0130 (to \<^verbatim>\<open>i\<close> followed by U+0307), and neither can
  complete one of the keywords.
\<close>

definition toLowerChar :: "char \<Rightarrow> char" where
  "toLowerChar c =
     (case map_of (zip ''ABCDEFGHIJKLMNOPQRSTUVWXYZ'' ''abcdefghijklmnopqrstuvwxyz'') c of
        Some d \<Rightarrow> d
      | None \<Rightarrow> c)"

definition toLowerCase :: "string \<Rightarrow> string" where
  "toLowerCase s = map toLowerChar s"

text \<open>\<^verbatim>\<open>s.includes(t)\<close>: \<open>t\<close> occurs in \<open>s\<close> as a contiguous substring.\<close>

fun includes_str :: "string \<Rightarrow> string \<Rightarrow> bool" where
  "includes_str [] t = (t = [])"
| "includes_str (c # cs) t = (prefix t (c # cs) \<or> includes_str cs t)"

text \<open>\<^verbatim>\<open>x || ''\<close> on a string that may be missing.\<close>

definition or_empty :: "string option \<Rightarrow> string" where
  "or_empty x = (case x of None \<Rightarrow> [] | Some s \<Rightarrow> s)"

section \<open>Result records\<close>

record risk_assessment =
  risk_label :: "string option"

record 'v pharmacogenomic_profile =
  primary_gene :: "string option"
  diplotype :: "string option"
  phenotype :: "string option"
  genetic_phenotype :: "string option"
  active_inhibitor :: "string option"
  detected_variants :: "'v list option"

record 'v analysis_result =
  drug :: string
  risk_assessment :: "risk_assessment option"
  pharmacogenomic_profile :: "'v pharmacogenomic_profile option"

text \<open>\<^verbatim>\<open>r.risk_assessment?.risk_label\<close>, and \<^verbatim>\<open>(result.risk_assessment || {}).risk_label\<close>.\<close>

definition result_label :: "'v analysis_result \<Rightarrow> string option" where
  "result_label r = (case risk_assessment r of None \<Rightarrow> None | Some ra \<Rightarrow> risk_label ra)"

section \<open>Risk classifier (\<^verbatim>\<open>riskMeta\<close> of DrugRiskRow.jsx)\<close>

record risk_meta =
  accent :: string
  bg :: string
  icon :: string
  border :: string

definition meta_toxic :: risk_meta where
  "meta_toxic = \<lparr>accent = ''#DC2626'', bg = ''#FEF2F2'',
     icon = [CHR 0xF0, CHR 0x9F, CHR 0x94, CHR 0xB4], border = ''#FECACA''\<rparr>"

definition meta_ineffective :: risk_meta where
  "meta_ineffective = \<lparr>accent = ''#D97706'', bg = ''#FFFBEB'',
     icon = [CHR 0xF0, CHR 0x9F, CHR 0x9F, CHR 0xA0], border = ''#FDE68A''\<rparr>"

definition meta_adjust :: risk_meta where
  "meta_adjust = \<lparr>accent = ''#2563EB'', bg = ''#EFF6FF'',
     icon = [CHR 0xF0, CHR 0x9F, CHR 0x9F, CHR 0xA1], border = ''#BFDBFE''\<rparr>"

definition meta_safe :: risk_meta where
  "meta_safe = \<lparr>accent = ''#16A34A'', bg = ''#F0FDF4'',
     icon = [CHR 0xF0, CHR 0x9F, CHR 0x9F, CHR 0xA2], border = ''#BBF7D0''\<rparr>"

definition meta_unknown :: risk_meta where
  "meta_unknown = \<lparr>accent = ''#9CA3AF'', bg = ''#F8FAFC'',
     icon = [CHR 0xE2, CHR 0x9A, CHR 0xAA], border = ''#E2E8F0''\<rparr>"

definition riskMeta :: "string option \<Rightarrow> risk_meta" where
  "riskMeta label =
     (let l = toLowerCase (or_empty label) in
      if l = ''toxic'' then meta_toxic
      else if l = ''ineffective'' then meta_ineffective
      else if includes_str l ''adjust'' then meta_adjust
      else if l = ''safe'' then meta_safe
      else meta_unknown)"

text \<open>
  The risk category is derived, not transmitted: it is the branch of \<^const>\<open>riskMeta\<close>
  that fired, read back from the accent colour of the metadata.
\<close>

datatype RiskCategory = CriticalToxic | CriticalIneffective | Adjust | Safe | Unknown

definition meta_category :: "risk_meta \<Rightarrow> RiskCategory" where
  "meta_category m =
     (if accent m = ''#DC2626'' then CriticalToxic
      else if accent m = ''#D97706'' then CriticalIneffective
      else if accent m = ''#2563EB'' then Adjust
      else if accent m = ''#16A34A'' then Safe
      else Unknown)"

definition classify :: "string option \<Rightarrow> RiskCategory" where
  "classify label = meta_category (riskMeta label)"






section \<open>Result aggregator (the \<^verbatim>\<open>counts\<close> reduce of the Results page)\<close>

record counts =
  critical :: nat
  warn :: nat
  safe :: nat

definition count_step :: "counts \<Rightarrow> 'v analysis_result \<Rightarrow> counts" where
  "count_step acc r =
     (let l = toLowerCase (or_empty (result_label r)) in
      if l = ''toxic'' \<or> l = ''ineffective'' then acc\<lparr>critical := critical acc + 1\<rparr>
      else if includes_str l ''adjust'' then acc\<lparr>warn := warn acc + 1\<rparr>
      else if l = ''safe'' then acc\<lparr>safe := safe acc + 1\<rparr>
      else acc)"

definition result_counts :: "'v analysis_result list \<Rightarrow> counts" where
  "result_counts results = foldl count_step \<lparr>critical = 0, warn = 0, safe = 0\<rparr> results"

text \<open>The category a result is displayed under: \<^const>\<open>riskMeta\<close> applied to its label.\<close>

definition result_category :: "'v analysis_result \<Rightarrow> RiskCategory" where
  "result_category r = classify (result_label r)"

definition labelled :: "string \<Rightarrow> nat analysis_result" where
  "labelled l = \<lparr>drug = ''DRUG'', risk_assessment = Some \<lparr>risk_label = Some l\<rparr>,
     pharmacogenomic_profile = None\<rparr>"

definition in_category :: "RiskCategory list \<Rightarrow> 'v analysis_result list \<Rightarrow> nat" where
  "in_category cs rs = length (filter (\<lambda>r. result_category r \<in> set cs) rs)"

section \<open>More JavaScript: white space, truthiness of strings, objects as ordered maps\<close>

text \<open>
  The white space and line terminator characters of ECMAScript, as UTF-8 byte sequences:
  TAB, LF, VT, FF, CR, SP, U+00A0, U+1680, U+2000 to U+200A, U+2028, U+2029, U+202F,
  U+205F, U+3000 and U+FEFF.
\<close>

definition white_space :: "string list" where
  "white_space =
     [[CHR 0x09], [CHR 0x0A], [CHR 0x0B], [CHR 0x0C], [CHR 0x0D], [CHR 0x20],
      [CHR 0xC2, CHR 0xA0], [CHR 0xE1, CHR 0x9A, CHR 0x80],
      [CHR 0xE2, CHR 0x80, CHR 0x80], [CHR 0xE2, CHR 0x80, CHR 0x81],
      [CHR 0xE2, CHR 0x80, CHR 0x82], [CHR 0xE2, CHR 0x80, CHR 0x83],
      [CHR 0xE2, CHR 0x80, CHR 0x84], [CHR 0xE2, CHR 0x80, CHR 0x85],
      [CHR 0xE2, CHR 0x80, CHR 0x86], [CHR 0xE2, CHR 0x80, CHR 0x87],
      [CHR 0xE2, CHR 0x80, CHR 0x88], [CHR 0xE2, CHR 0x80, CHR 0x89],
      [CHR 0xE2, CHR 0x80, CHR 0x8A], [CHR 0xE2, CHR 0x80, CHR 0xA8],
      [CHR 0xE2, CHR 0x80, CHR 0xA9], [CHR 0xE2, CHR 0x80, CHR 0xAF],
      [CHR 0xE2, CHR 0x81, CHR 0x9F], [CHR 0xE3, CHR 0x80, CHR 0x80],
      [CHR 0xEF, CHR 0xBB, CHR 0xBF]]"

text \<open>The number of bytes of the white space character a string starts with; 0 if none.\<close>

definition ws_length :: "string \<Rightarrow> nat" where
  "ws_length s = (case find (\<lambda>w. prefix w s) white_space of None \<Rightarrow> 0 | Some w \<Rightarrow> length w)"

text \<open>
  \<^verbatim>\<open>String.prototype.trimStart\<close>; the first argument counts the bytes of a white space
  character that are still to be dropped.
\<close>

fun trimStart_from :: "nat \<Rightarrow> string \<Rightarrow> string" where
  "trimStart_from k [] = []"
| "trimStart_from (Suc k) (c # cs) = trimStart_from k cs"
| "trimStart_from 0 (c # cs) =
     (case ws_length (c # cs) of 0 \<Rightarrow> c # cs | Suc k \<Rightarrow> trimStart_from k cs)"

definition trimStart :: "string \<Rightarrow> string" where
  "trimStart s = trimStart_from 0 s"

text \<open>
  \<^verbatim>\<open>!s.trim()\<close>: the string is empty once its white space is trimmed, which is the case
  exactly when trimming it from the start alone leaves nothing.
\<close>

definition blank :: "string \<Rightarrow> bool" where
  "blank s = (trimStart s = [])"

text \<open>\<^verbatim>\<open>x || d\<close> on a string that may be missing: the empty string is falsy too.\<close>

definition or_default :: "string option \<Rightarrow> string \<Rightarrow> string" where
  "or_default x d = (case x of None \<Rightarrow> d | Some s \<Rightarrow> if s = [] then d else s)"

text \<open>\<^verbatim>\<open>x || y\<close> on two strings that may be missing.\<close>

definition or_else :: "string option \<Rightarrow> string option \<Rightarrow> string option" where
  "or_else x y = (case x of None \<Rightarrow> y | Some s \<Rightarrow> if s = [] then y else Some s)"

text \<open>
  A plain object used as a dictionary, \<^verbatim>\<open>const seen = {}\<close>, is modelled by the list of its
  own properties in the order of their creation. Two rules of the language are part of the
  model. First, a property read \<^verbatim>\<open>seen[k]\<close> also finds the properties inherited from
  \<^verbatim>\<open>Object.prototype\<close>, all of which are truthy. Second, \<^verbatim>\<open>Object.values\<close> lists the
  properties whose key is an array index (a canonical decimal numeral below \<open>2\<^sup>3\<^sup>2 - 1\<close>)
  first, in ascending numeric order, and the other properties after them in the order of
  their creation.
\<close>

definition object_prototype_keys :: "string list" where
  "object_prototype_keys =
     [''constructor'', ''hasOwnProperty'', ''isPrototypeOf'', ''propertyIsEnumerable'',
      ''toLocaleString'', ''toString'', ''valueOf'', ''__proto__'',
      ''__defineGetter__'', ''__defineSetter__'', ''__lookupGetter__'', ''__lookupSetter__'']"

definition is_digit :: "char \<Rightarrow> bool" where
  "is_digit c = (c \<in> set ''0123456789'')"

definition digit_value :: "char \<Rightarrow> int" where
  "digit_value c = (case map_of (zip ''0123456789'' [0, 1, 2, 3, 4, 5, 6, 7, 8, 9]) c of
                      Some d \<Rightarrow> d | None \<Rightarrow> 0)"

text \<open>The number a string of decimal digits denotes.\<close>

definition digits_value :: "string \<Rightarrow> int" where
  "digits_value s = foldl (\<lambda>n c. 10 * n + digit_value c) 0 s"

definition is_array_index :: "string \<Rightarrow> bool" where
  "is_array_index k =
     (k \<noteq> [] \<and> list_all is_digit k \<and> (k = ''0'' \<or> hd k \<noteq> CHR ''0'')
      \<and> digits_value k < 2 ^ 32 - 1)"

definition has_property :: "(string \<times> 'a) list \<Rightarrow> string \<Rightarrow> bool" where
  "has_property obj k = (k \<in> fst ` set obj \<or> k \<in> set object_prototype_keys)"

definition Object_values :: "(string \<times> 'a) list \<Rightarrow> 'a list" where
  "Object_values obj =
     map snd (sort_key (\<lambda>p. digits_value (fst p)) (filter (\<lambda>p. is_array_index (fst p)) obj)
              @ filter (\<lambda>p. \<not> is_array_index (fst p)) obj)"

section \<open>Gene panel reconstructor (\<^verbatim>\<open>_buildGenePanelFallback\<close> of the Results page)\<close>

record 'v gene_panel_entry =
  gp_gene :: string
  gp_diplotype :: string
  gp_phenotype :: string
  gp_genetic_phenotype :: string
  gp_active_inhibitor :: "string option"
  gp_variant_count :: nat
  gp_summary :: string
  gp_variants :: "'v list"

text \<open>
  The \<^verbatim>\<open>results\<close> field of a response is an array of results or a single result; an
  element, or the single result, may be null or missing.
\<close>

datatype 'v results_field =
  ResultArray "'v analysis_result option list"
| ResultSingle "'v analysis_result option"

text \<open>\<^verbatim>\<open>Array.isArray(res) ? res : [res]\<close>\<close>

definition as_array :: "'v results_field \<Rightarrow> 'v analysis_result option list" where
  "as_array res = (case res of ResultArray xs \<Rightarrow> xs | ResultSingle r \<Rightarrow> [r])"

text \<open>The empty object \<^verbatim>\<open>{}\<close> read as a profile: every field is undefined.\<close>

definition empty_profile :: "'v pharmacogenomic_profile" where
  "empty_profile = \<lparr>primary_gene = None, diplotype = None, phenotype = None,
     genetic_phenotype = None, active_inhibitor = None, detected_variants = None\<rparr>"

text \<open>\<^verbatim>\<open>r?.pharmacogenomic_profile || {}\<close>\<close>

definition profile_of :: "'v analysis_result option \<Rightarrow> 'v pharmacogenomic_profile" where
  "profile_of r =
     (case r of
        None \<Rightarrow> empty_profile
      | Some x \<Rightarrow> (case pharmacogenomic_profile x of None \<Rightarrow> empty_profile | Some p \<Rightarrow> p))"

text \<open>\<^verbatim>\<open>pgx.detected_variants || []\<close>\<close>

definition variants_of :: "'v pharmacogenomic_profile \<Rightarrow> 'v list" where
  "variants_of pgx = (case detected_variants pgx of None \<Rightarrow> [] | Some vs \<Rightarrow> vs)"

text \<open>The object literal stored under \<^verbatim>\<open>seen[gene]\<close>.\<close>

definition panel_entry :: "string \<Rightarrow> 'v pharmacogenomic_profile \<Rightarrow> 'v gene_panel_entry" where
  "panel_entry gene pgx =
     \<lparr>gp_gene = gene,
      gp_diplotype = or_default (diplotype pgx) ''Unknown'',
      gp_phenotype = or_default (phenotype pgx) ''Unknown'',
      gp_genetic_phenotype =
        or_default (or_else (genetic_phenotype pgx) (phenotype pgx)) ''Unknown'',
      gp_active_inhibitor = active_inhibitor pgx,
      gp_variant_count = length (variants_of pgx),
      gp_summary = gene @ '' metabolizer status based on detected variants'',
      gp_variants = variants_of pgx\<rparr>"

text \<open>The body of the \<^verbatim>\<open>for (const r of arr)\<close> loop, and the loop.\<close>

definition panel_step ::
  "(string \<times> 'v gene_panel_entry) list \<Rightarrow> 'v analysis_result option
     \<Rightarrow> (string \<times> 'v gene_panel_entry) list" where
  "panel_step seen r =
     (let pgx = profile_of r; gene = or_empty (primary_gene pgx) in
      if gene = [] \<or> has_property seen gene then seen
      else seen @ [(gene, panel_entry gene pgx)])"

text \<open>A profile with a primary gene, as the property it creates in \<^verbatim>\<open>seen\<close>.\<close>

definition keyed :: "'v pharmacogenomic_profile \<Rightarrow> string \<times> 'v gene_panel_entry" where
  "keyed p = (or_empty (primary_gene p), panel_entry (or_empty (primary_gene p)) p)"

definition buildGenePanelFallback :: "'v results_field \<Rightarrow> 'v gene_panel_entry list" where
  "buildGenePanelFallback res = Object_values (foldl panel_step [] (as_array res))"

text \<open>
  The reconstruction as the specification words it: the results without a primary gene are
  skipped, the first result of each gene is kept, in the order of first occurrence, and
  each kept result is turned into the entry of its gene.
\<close>

fun first_per_gene ::
  "string set \<Rightarrow> 'v pharmacogenomic_profile list \<Rightarrow> 'v pharmacogenomic_profile list" where
  "first_per_gene done [] = []"
| "first_per_gene done (p # ps) =
     (if or_empty (primary_gene p) = [] \<or> or_empty (primary_gene p) \<in> done
      then first_per_gene done ps
      else p # first_per_gene (insert (or_empty (primary_gene p)) done) ps)"

definition gene_panel_spec :: "'v analysis_result option list \<Rightarrow> 'v gene_panel_entry list" where
  "gene_panel_spec rs =
     map (\<lambda>p. panel_entry (or_empty (primary_gene p)) p) (first_per_gene {} (map profile_of rs))"

text \<open>The gene names for which the object behaves as an insertion-ordered dictionary.\<close>

definition plain_key :: "string \<Rightarrow> bool" where
  "plain_key k = (\<not> is_array_index k \<and> k \<notin> set object_prototype_keys)"

definition plain_genes :: "'v analysis_result option list \<Rightarrow> bool" where
  "plain_genes rs = list_all (\<lambda>r. plain_key (or_empty (primary_gene (profile_of r)))) rs"

definition gene_result :: "string \<Rightarrow> nat list \<Rightarrow> nat analysis_result option" where
  "gene_result g vs =
     Some \<lparr>drug = ''DRUG'', risk_assessment = None,
       pharmacogenomic_profile = Some \<lparr>primary_gene = Some g, diplotype = None,
         phenotype = None, genetic_phenotype = None, active_inhibitor = None,
         detected_variants = Some vs\<rparr>\<rparr>"

text \<open>The primary gene of a result, the empty string when there is none.\<close>

definition gene_of :: "'v analysis_result option \<Rightarrow> string" where
  "gene_of r = or_empty (primary_gene (profile_of r))"

section \<open>The API client (\<^verbatim>\<open>analyzeVCF\<close> and \<^verbatim>\<open>getResultsByPatient\<close>)\<close>

text \<open>
  The \<^verbatim>\<open>data\<close> object of a response, the JSON body around it, and what the awaited
  \<^verbatim>\<open>fetch\<close> and \<^verbatim>\<open>res.json()\<close> can produce: a rejection, carrying the message of the
  error, or a parsed body together with the flag \<^verbatim>\<open>res.ok\<close>.
\<close>

record 'v response_data =
  patient_code :: "string option"
  patient_id :: "string option"
  total_variants_parsed :: "nat option"
  results :: "'v results_field"
  gene_panel :: "'v gene_panel_entry list option"

record 'v json_body =
  success :: "bool option"
  error :: "string option"
  detail_error :: "string option"
  data :: "'v response_data option"

datatype 'v outcome = Rejected string | Response bool "'v json_body"

text \<open>\<^verbatim>\<open>!json.success\<close>\<close>

definition not_success :: "'v json_body \<Rightarrow> bool" where
  "not_success json = (success json \<noteq> Some True)"

text \<open>
  The two client functions return the \<^verbatim>\<open>data\<close> of the body (\<open>Inr\<close>) or throw an
  \<^verbatim>\<open>Error\<close> (\<open>Inl\<close> of its message).
\<close>

definition analyzeVCF :: "'v outcome \<Rightarrow> string + 'v response_data option" where
  "analyzeVCF out =
     (case out of
        Rejected msg \<Rightarrow> Inl msg
      | Response ok json \<Rightarrow>
          if \<not> ok \<or> not_success json
          then Inl (or_default (or_else (error json) (detail_error json)) ''Analysis failed'')
          else Inr (data json))"

definition getResultsByPatient :: "'v outcome \<Rightarrow> string + 'v response_data option" where
  "getResultsByPatient out =
     (case out of
        Rejected msg \<Rightarrow> Inl msg
      | Response ok json \<Rightarrow>
          if \<not> ok \<or> not_success json
          then Inl (or_default (or_else (error json) (detail_error json))
                      ''Failed to fetch results'')
          else Inr (data json))"

text \<open>
  Reading a field of a \<^verbatim>\<open>data\<close> that is undefined throws a \<^verbatim>\<open>TypeError\<close>; its message is
  the engine's, and is not empty.
\<close>

definition type_error_message :: string where
  "type_error_message = ''Cannot read properties of undefined''"

section \<open>The Results page: fetch by patient id\<close>

record upload_data =
  ud_patient_code :: "string option"
  ud_patient_id :: "string option"
  ud_total_variants_found :: "nat option"

record 'v results_page =
  rp_results :: "'v analysis_result option list"
  rp_genePanel :: "'v gene_panel_entry list"
  fetchPatientId :: string
  fetching :: bool
  fetchError :: "string option"
  activeUploadData :: "upload_data option"

text \<open>
  \<^verbatim>\<open>data.gene_panel || _buildGenePanelFallback(data.results)\<close>: the right operand of
  \<^verbatim>\<open>||\<close> is evaluated only when the left one is falsy, and an array, empty or not, is
  truthy. The second component records whether the reconstructor was called.
\<close>

datatype panel_source = ServerSupplied | Reconstructed

definition fetched_gene_panel ::
  "'v response_data \<Rightarrow> 'v gene_panel_entry list \<times> panel_source" where
  "fetched_gene_panel d =
     (case gene_panel d of
        Some p \<Rightarrow> (p, ServerSupplied)
      | None \<Rightarrow> (buildGenePanelFallback (results d), Reconstructed))"

text \<open>
  \<^verbatim>\<open>handleFetchByPatient\<close>, from the click to the end of its \<^verbatim>\<open>finally\<close> block, for
  the outcome \<open>out\<close> of the request.
\<close>

definition handleFetchByPatient :: "'v outcome \<Rightarrow> 'v results_page \<Rightarrow> 'v results_page" where
  "handleFetchByPatient out s =
     (if blank (fetchPatientId s) then s
      else
        let s1 = s\<lparr>fetching := True, fetchError := None\<rparr> in
        (case getResultsByPatient out of
           Inl msg \<Rightarrow>
             s1\<lparr>fetchError := Some (or_default (Some msg) ''Failed to fetch results.''),
                fetching := False\<rparr>
         | Inr None \<Rightarrow>
             s1\<lparr>fetchError := Some (or_default (Some type_error_message) ''Failed to fetch results.''),
                fetching := False\<rparr>
         | Inr (Some d) \<Rightarrow>
             s1\<lparr>rp_results := as_array (results d),
                rp_genePanel := fst (fetched_gene_panel d),
                activeUploadData := Some \<lparr>ud_patient_code = patient_code d,
                  ud_patient_id = patient_id d,
                  ud_total_variants_found = total_variants_parsed d\<rparr>,
                fetching := False\<rparr>))"

text \<open>The outcomes on which the request fails: a rejection, or a payload that is not a success.\<close>

definition failed :: "'v outcome \<Rightarrow> bool" where
  "failed out = (case out of Rejected msg \<Rightarrow> True | Response ok json \<Rightarrow> \<not> ok \<or> not_success json)"

section \<open>The application shell (\<^verbatim>\<open>App\<close>)\<close>

datatype view = HomeView | UploadView | ResultsView

record 'v app =
  view :: view
  app_results :: "'v analysis_result option list"
  app_uploadData :: "upload_data option"
  app_genePanel :: "'v gene_panel_entry list"

definition navigate :: "view \<Rightarrow> 'v app \<Rightarrow> 'v app" where
  "navigate to a = a\<lparr>view := to\<rparr>"

definition handleResults ::
  "'v analysis_result option list \<Rightarrow> upload_data \<Rightarrow> 'v gene_panel_entry list \<Rightarrow> 'v app \<Rightarrow> 'v app" where
  "handleResults res upload genes a =
     a\<lparr>app_results := res, app_uploadData := Some upload, app_genePanel := genes,
       view := ResultsView\<rparr>"

section \<open>The Upload page and the pipeline orchestrator (\<^verbatim>\<open>handleSubmit\<close>)\<close>

text \<open>The state of the Upload component; \<open>'f\<close> is the type of file handles, and
  \<open>vcf_file\<close> is the state variable \<^verbatim>\<open>file\<close>.\<close>

record 'f upload_page =
  vcf_file :: "'f option"
  patientCode :: string
  selectedDrugs :: "string list"
  selectedMeds :: "string list"
  loading :: bool
  pipelineStep :: nat
  toast :: "string option"

text \<open>The argument of one call of \<^verbatim>\<open>analyzeVCF\<close>, that is, one network request.\<close>

record 'f analyze_request =
  req_file :: 'f
  req_patientCode :: string
  req_drugs :: "string list"
  req_concurrentMedications :: "string list"

text \<open>
  One call of \<^verbatim>\<open>handleSubmit\<close> is an asynchronous process. Its state is the state of the
  component that started it (and whether that component is still mounted), the state of
  the application shell, the variable \<^verbatim>\<open>step\<close> of its closure, whether its interval
  timer is armed, the point the \<^verbatim>\<open>async\<close> function has reached, and the requests issued.
\<close>

datatype 'v phase = NotSubmitted | Awaiting | Holding "'v response_data option" | Finished

record ('f, 'v) session =
  shell :: "'v app"
  page :: "'f upload_page"
  mounted :: bool
  step :: nat
  ticker :: bool
  phase :: "'v phase"
  requests :: "'f analyze_request list"

text \<open>A state setter of the component: it has no effect once the component is unmounted.\<close>

definition set_page ::
  "('f upload_page \<Rightarrow> 'f upload_page) \<Rightarrow> ('f, 'v) session \<Rightarrow> ('f, 'v) session" where
  "set_page f s = (if mounted s then s\<lparr>page := f (page s)\<rparr> else s)"

definition showToast :: "string \<Rightarrow> ('f, 'v) session \<Rightarrow> ('f, 'v) session" where
  "showToast msg s = set_page (\<lambda>p. p\<lparr>toast := Some msg\<rparr>) s"


text \<open>\<^verbatim>\<open>handleSubmit\<close> up to its first \<^verbatim>\<open>await\<close>.\<close>

definition handleSubmit :: "('f, 'v) session \<Rightarrow> ('f, 'v) session" where
  "handleSubmit s =
     (case vcf_file (page s) of
        None \<Rightarrow> showToast ''Please select a VCF file.'' s
      | Some f \<Rightarrow>
          if selectedDrugs (page s) = []
          then showToast ''Select at least one drug to analyze.'' s
          else
            (set_page (\<lambda>p. p\<lparr>loading := True, pipelineStep := 1\<rparr>) s)
              \<lparr>step := 1, ticker := True, phase := Awaiting,
               requests := requests s @
                 [\<lparr>req_file = f, req_patientCode = patientCode (page s),
                   req_drugs = selectedDrugs (page s),
                   req_concurrentMedications = selectedMeds (page s)\<rparr>]\<rparr>)"

text \<open>The \<^verbatim>\<open>catch\<close> block, for an error with the message \<open>msg\<close>.\<close>

definition catch_error :: "string \<Rightarrow> ('f, 'v) session \<Rightarrow> ('f, 'v) session" where
  "catch_error msg s =
     set_page (\<lambda>p. p\<lparr>loading := False, pipelineStep := 0\<rparr>)
       (showToast (or_default (Some msg) ''Analysis failed. Check console.'')
         (s\<lparr>ticker := False, phase := Finished\<rparr>))"

text \<open>
  What can happen to the process: the interval timer fires, the request settles, the hold
  of 600 ms after a success ends, the user navigates, the toast's timer fires. A cleared
  interval timer never calls back, and a settled request settles once.
\<close>

datatype 'v event =
  Tick | Arrive "'v outcome" | HoldElapsed | Navigate view | ToastTimeout

definition is_arrival :: "'v event \<Rightarrow> bool" where
  "is_arrival e = (case e of Arrive out \<Rightarrow> True | _ \<Rightarrow> False)"

definition deliver :: "'v event \<Rightarrow> ('f, 'v) session \<Rightarrow> ('f, 'v) session" where
  "deliver e s =
     (case e of
        Tick \<Rightarrow>
          if ticker s
          then set_page (\<lambda>p. p\<lparr>pipelineStep := min (step s + 1) 6\<rparr>)
                 (s\<lparr>step := min (step s + 1) 6\<rparr>)
          else s
      | Arrive out \<Rightarrow>
          if phase s = Awaiting
          then (case analyzeVCF out of
                  Inl msg \<Rightarrow> catch_error msg s
                | Inr d \<Rightarrow>
                    set_page (\<lambda>p. p\<lparr>pipelineStep := 7\<rparr>)
                      (s\<lparr>ticker := False, phase := Holding d\<rparr>))
          else s
      | HoldElapsed \<Rightarrow>
          (case phase s of
             Holding None \<Rightarrow> catch_error type_error_message s
           | Holding (Some d) \<Rightarrow>
               s\<lparr>shell := handleResults (as_array (results d))
                    \<lparr>ud_patient_code = patient_code d, ud_patient_id = patient_id d,
                      ud_total_variants_found = total_variants_parsed d\<rparr>
                    (case gene_panel d of None \<Rightarrow> [] | Some g \<Rightarrow> g) (shell s),
                 mounted := False, phase := Finished\<rparr>
           | _ \<Rightarrow> s)
      | Navigate to \<Rightarrow>
          s\<lparr>shell := navigate to (shell s), mounted := (mounted s \<and> to = UploadView)\<rparr>
      | ToastTimeout \<Rightarrow> set_page (\<lambda>p. p\<lparr>toast := None\<rparr>) s)"

definition run :: "'v event list \<Rightarrow> ('f, 'v) session \<Rightarrow> ('f, 'v) session" where
  "run es s = foldl (\<lambda>s e. deliver e s) s es"

text \<open>The stage displayed after each event of a run.\<close>

fun observe :: "'v event list \<Rightarrow> ('f, 'v) session \<Rightarrow> nat list" where
  "observe [] s = []"
| "observe (e # es) s = pipelineStep (page (deliver e s)) # observe es (deliver e s)"


text \<open>Concrete states and outcomes for the examples.\<close>

definition example_page :: "nat upload_page" where
  "example_page = \<lparr>vcf_file = Some 0, patientCode = ''PT-7'', selectedDrugs = [''WARFARIN''],
     selectedMeds = [], loading = False, pipelineStep = 0, toast = None\<rparr>"

definition example_session :: "(nat, nat) session" where
  "example_session =
     \<lparr>shell = \<lparr>view = UploadView, app_results = [], app_uploadData = None, app_genePanel = []\<rparr>,
      page = example_page, mounted = True, step = 0, ticker = False, phase = NotSubmitted,
      requests = []\<rparr>"

definition example_data :: "nat response_data" where
  "example_data = \<lparr>patient_code = Some ''PT-7'', patient_id = Some ''1'',
     total_variants_parsed = Some 3,
     results = ResultArray [gene_result ''CYP2C9'' [1]], gene_panel = None\<rparr>"

definition example_success :: "nat outcome" where
  "example_success =
     Response True \<lparr>success = Some True, error = None, detail_error = None,
       data = Some example_data\<rparr>"

definition example_failure :: "nat outcome" where
  "example_failure =
     Response True \<lparr>success = Some False, error = None,
       detail_error = Some ''VCF could not be parsed'', data = None\<rparr>"

definition example_results_page :: "nat results_page" where
  "example_results_page =
     \<lparr>rp_results = [gene_result ''CYP2D6'' [7]], rp_genePanel = [],
      fetchPatientId = ''PT-7'', fetching = False, fetchError = None,
      activeUploadData = None\<rparr>"

section \<open>Numbers: \<^verbatim>\<open>parseFloat\<close>, multiplication and \<^verbatim>\<open>toFixed(1)\<close>\<close>

text \<open>
  A Number is NaN, an infinity, or a finite binary64 value, held as the rational number it
  denotes. The two zeros are one value here: the calculator shows a Number only through
  \<^verbatim>\<open>toFixed\<close>, which prints both as \<^verbatim>\<open>0.0\<close>.
\<close>

datatype jsnum = NaN | PosInf | NegInf | Fin rat

text \<open>\<open>\<lfloor>log\<^sub>2 a\<rfloor>\<close> for a positive rational \<open>a\<close>.\<close>

definition ilog2 :: "rat \<Rightarrow> int" where
  "ilog2 a = (if 1 \<le> a then bitlen \<lfloor>a\<rfloor> - 1 else - bitlen (\<lceil>1 / a\<rceil> - 1))"

definition round_half_even :: "rat \<Rightarrow> int" where
  "round_half_even q =
     (let f = \<lfloor>q\<rfloor>; d = q - of_int f in
      if d < 1 / 2 then f else if 1 / 2 < d then f + 1 else if even f then f else f + 1)"

text \<open>
  The Number value for a rational: rounding to the nearest binary64 value, ties to the even
  significand, with gradual underflow (the unit in the last place never gets below
  \<open>2\<^sup>-\<^sup>1\<^sup>0\<^sup>7\<^sup>4\<close>) and overflow to infinity from \<open>2\<^sup>1\<^sup>0\<^sup>2\<^sup>4\<close>.
\<close>

definition round64 :: "rat \<Rightarrow> jsnum" where
  "round64 q =
     (if q = 0 then Fin 0
      else
        let a = \<bar>q\<bar>;
            ulp = 2 powi (max (ilog2 a) (- 1022) - 52);
            r = of_int (round_half_even (a / ulp)) * ulp
        in if 2 powi 1024 \<le> r then (if q < 0 then NegInf else PosInf)
           else Fin (if q < 0 then - r else r))"

text \<open>The sign of a Number that is not NaN, and the product of two Numbers.\<close>

definition sign_of :: "jsnum \<Rightarrow> int" where
  "sign_of x = (case x of NaN \<Rightarrow> 0 | PosInf \<Rightarrow> 1 | NegInf \<Rightarrow> - 1
                | Fin a \<Rightarrow> if a < 0 then - 1 else if a = 0 then 0 else 1)"

definition js_times :: "jsnum \<Rightarrow> jsnum \<Rightarrow> jsnum" where
  "js_times x y =
     (case (x, y) of
        (Fin a, Fin b) \<Rightarrow> round64 (a * b)
      | _ \<Rightarrow>
          if x = NaN \<or> y = NaN \<or> sign_of x * sign_of y = 0 then NaN
          else if 0 < sign_of x * sign_of y then PosInf
          else NegInf)"

text \<open>
  \<^verbatim>\<open>parseFloat\<close>: leading white space is dropped, and the longest prefix of the rest that is a
  \<^verbatim>\<open>StrDecimalLiteral\<close> (an optional sign, then \<^verbatim>\<open>Infinity\<close>, or digits with an optional
  fraction, or a fraction alone, and an optional exponent) gives the value; without such a
  prefix the result is NaN.
\<close>

definition after_prefix :: "string \<Rightarrow> string \<Rightarrow> string option" where
  "after_prefix p s = (if prefix p s then Some (drop (length p) s) else None)"

text \<open>The value of the exponent part a string starts with, 0 when it starts with none.\<close>

definition exponent_part :: "string \<Rightarrow> int" where
  "exponent_part s =
     (case (case after_prefix ''e'' s of None \<Rightarrow> after_prefix ''E'' s | Some r \<Rightarrow> Some r) of
        None \<Rightarrow> 0
      | Some r \<Rightarrow>
          (case after_prefix ''-'' r of
             Some ds \<Rightarrow> - digits_value (takeWhile is_digit ds)
           | None \<Rightarrow>
               (case after_prefix ''+'' r of
                  Some ds \<Rightarrow> digits_value (takeWhile is_digit ds)
                | None \<Rightarrow> digits_value (takeWhile is_digit r))))"

text \<open>The unsigned literal a string starts with, as the rational it denotes, if there is one.\<close>

definition unsigned_decimal :: "string \<Rightarrow> rat option" where
  "unsigned_decimal s =
     (let ip = takeWhile is_digit s;
          r1 = dropWhile is_digit s;
          fp = (case after_prefix ''.'' r1 of None \<Rightarrow> [] | Some r \<Rightarrow> takeWhile is_digit r);
          r2 = (case after_prefix ''.'' r1 of None \<Rightarrow> r1 | Some r \<Rightarrow> dropWhile is_digit r)
      in if ip = [] \<and> fp = [] then None
         else Some (of_int (digits_value (ip @ fp))
                    * 10 powi (exponent_part r2 - int (length fp))))"

definition str_decimal_literal :: "string \<Rightarrow> jsnum option" where
  "str_decimal_literal s =
     (let neg = prefix ''-'' s;
          r = (case after_prefix ''-'' s of
                 Some t \<Rightarrow> t
               | None \<Rightarrow> (case after_prefix ''+'' s of Some t \<Rightarrow> t | None \<Rightarrow> s))
      in if prefix ''Infinity'' r then Some (if neg then NegInf else PosInf)
         else (case unsigned_decimal r of
                 None \<Rightarrow> None
               | Some mv \<Rightarrow> Some (round64 (if neg then - mv else mv))))"

definition parseFloat :: "string \<Rightarrow> jsnum" where
  "parseFloat s = (case str_decimal_literal (trimStart s) of None \<Rightarrow> NaN | Some v \<Rightarrow> v)"

text \<open>The decimal digits of a natural number.\<close>

definition digit_char :: "nat \<Rightarrow> char" where
  "digit_char d = ''0123456789'' ! d"

function decimal :: "nat \<Rightarrow> string" where
  "decimal n = (if n < 10 then [digit_char n] else decimal (n div 10) @ [digit_char (n mod 10)])"
  by pat_completeness auto
termination
  by (relation "measure (\<lambda>n. n)") auto

declare decimal.simps [simp del]

text \<open>
  The text of \<open>n / 10\<close> with one digit after the point: the digits of \<open>n\<close>, with a zero put
  in front of a single digit, and the point before the last digit.
\<close>

definition one_decimal :: "nat \<Rightarrow> string" where
  "one_decimal n =
     (let m = (if length (decimal n) \<le> 1 then ''0'' @ decimal n else decimal n)
      in butlast m @ ''.'' @ [last m])"

text \<open>
  The result of \<^verbatim>\<open>x.toFixed(1)\<close>: a text, or, for a finite \<open>x\<close> of magnitude \<open>10\<^sup>2\<^sup>1\<close> or more,
  the exponential notation of \<open>x\<close>, whose digits are not computed here. Below \<open>10\<^sup>2\<^sup>1\<close> the
  integer \<open>n\<close> for which \<open>n / 10\<close> is nearest to the magnitude of \<open>x\<close> is printed, the larger
  one of two.
\<close>

datatype number_text = Text string | ExponentialText rat

definition toFixed1 :: "jsnum \<Rightarrow> number_text" where
  "toFixed1 x =
     (case x of
        NaN \<Rightarrow> Text ''NaN''
      | PosInf \<Rightarrow> Text ''Infinity''
      | NegInf \<Rightarrow> Text ''-Infinity''
      | Fin q \<Rightarrow>
          if 10 ^ 21 \<le> \<bar>q\<bar> then ExponentialText q
          else Text ((if q < 0 then ''-'' else []) @ one_decimal (nat \<lfloor>10 * \<bar>q\<bar> + 1 / 2\<rfloor>)))"

section \<open>Dose adjustment calculator (\<^verbatim>\<open>DrugRiskRow\<close>)\<close>

definition doseModifier :: "string option \<Rightarrow> jsnum" where
  "doseModifier label =
     (let riskLower = toLowerCase (or_empty label) in
      if riskLower = ''toxic'' \<or> riskLower = ''ineffective'' then Fin 0
      else if includes_str riskLower ''adjust'' then Fin (1 / 2)
      else Fin 1)"

text \<open>\<^verbatim>\<open>calculatedDose\<close>, which is null (\<open>None\<close>) when the input string is falsy, that is, empty.\<close>

definition calculatedDose :: "string option \<Rightarrow> string \<Rightarrow> number_text option" where
  "calculatedDose label standardDose =
     (if standardDose = [] then None
      else Some (toFixed1 (js_times (parseFloat standardDose) (doseModifier label))))"

text \<open>
  The content of the Adjusted Dose cell: the dash when \<^verbatim>\<open>calculatedDose\<close> is falsy (null or
  the empty string), otherwise the text followed by \<^verbatim>\<open>mg\<close>.
\<close>

datatype adjusted_dose = NoResult | Milligrams number_text

definition adjusted_dose_cell :: "string option \<Rightarrow> string \<Rightarrow> adjusted_dose" where
  "adjusted_dose_cell label standardDose =
     (case calculatedDose label standardDose of
        None \<Rightarrow> NoResult
      | Some t \<Rightarrow> if t = Text [] then NoResult else Milligrams t)"

text \<open>The modifier the calculator applies in each risk category, and the same in tenths.\<close>

definition category_modifier :: "RiskCategory \<Rightarrow> jsnum" where
  "category_modifier c =
     (case c of
        CriticalToxic \<Rightarrow> Fin 0
      | CriticalIneffective \<Rightarrow> Fin 0
      | Adjust \<Rightarrow> Fin (1 / 2)
      | Safe \<Rightarrow> Fin 1
      | Unknown \<Rightarrow> Fin 1)"

definition category_tenths :: "RiskCategory \<Rightarrow> nat" where
  "category_tenths c =
     (case c of
        CriticalToxic \<Rightarrow> 0
      | CriticalIneffective \<Rightarrow> 0
      | Adjust \<Rightarrow> 5
      | Safe \<Rightarrow> 10
      | Unknown \<Rightarrow> 10)"


section \<open>The string helpers\<close>




section \<open>Risk classification\<close>







section \<open>Result aggregation\<close>

lemma count_step_category:
  "count_step acc r =
     (case result_category r of
        CriticalToxic \<Rightarrow> acc\<lparr>critical := critical acc + 1\<rparr>
      | CriticalIneffective \<Rightarrow> acc\<lparr>critical := critical acc + 1\<rparr>
      | Adjust \<Rightarrow> acc\<lparr>warn := warn acc + 1\<rparr>
      | Safe \<Rightarrow> acc\<lparr>safe := safe acc + 1\<rparr>
      | Unknown \<Rightarrow> acc)"
  by (simp add: count_step_def result_category_def classify_def riskMeta_def Let_def
      meta_category_def meta_toxic_def meta_ineffective_def
      meta_adjust_def meta_safe_def meta_unknown_def)

lemma foldl_count_step:
  "foldl count_step acc rs =
     \<lparr>critical = critical acc + in_category [CriticalToxic, CriticalIneffective] rs,
      warn = warn acc + in_category [Adjust] rs,
      safe = safe acc + in_category [Safe] rs\<rparr>"
proof (induction rs arbitrary: acc)
  case Nil
  show ?case by (simp add: in_category_def)
next
  case (Cons r rs)
  have "foldl count_step acc (r # rs) = foldl count_step (count_step acc r) rs"
    by simp
  also have "\<dots> =
     \<lparr>critical = critical (count_step acc r) + in_category [CriticalToxic, CriticalIneffective] rs,
      warn = warn (count_step acc r) + in_category [Adjust] rs,
      safe = safe (count_step acc r) + in_category [Safe] rs\<rparr>"
    by (rule Cons.IH)
  also have "\<dots> =
     \<lparr>critical = critical acc + in_category [CriticalToxic, CriticalIneffective] (r # rs),
      warn = warn acc + in_category [Adjust] (r # rs),
      safe = safe acc + in_category [Safe] (r # rs)\<rparr>"
    by (cases "result_category r") (simp_all add: count_step_category in_category_def)
  finally show ?case .
qed

lemma category_partition:
  "in_category [CriticalToxic, CriticalIneffective] rs + in_category [Adjust] rs
     + in_category [Safe] rs + in_category [Unknown] rs = length rs"
proof (induction rs)
  case Nil
  show ?case by (simp add: in_category_def)
next
  case (Cons r rs)
  then show ?case
    by (cases "result_category r") (simp_all add: in_category_def)
qed

text \<open>
  Claim C3. For every result list the three counters are the numbers of results classified
  Critical-Toxic or Critical-Ineffective, Adjust, and Safe; together with the results
  classified Unknown, which no counter sees, they account for every result exactly once;
  and the labels Toxic, Safe, Adjust Dose, Unknown, Ineffective give critical 2, warn 1,
  safe 1.
\<close>

theorem counts_partition:
  "critical (result_counts rs) = in_category [CriticalToxic, CriticalIneffective] rs
   \<and> warn (result_counts rs) = in_category [Adjust] rs
   \<and> safe (result_counts rs) = in_category [Safe] rs
   \<and> critical (result_counts rs) + warn (result_counts rs) + safe (result_counts rs)
       + in_category [Unknown] rs = length rs
   \<and> result_counts (map labelled [''Toxic'', ''Safe'', ''Adjust Dose'', ''Unknown'', ''Ineffective''])
       = \<lparr>critical = 2, warn = 1, safe = 1\<rparr>"
proof -
  have ex: "result_counts (map labelled [''Toxic'', ''Safe'', ''Adjust Dose'', ''Unknown'', ''Ineffective''])
       = \<lparr>critical = 2, warn = 1, safe = 1\<rparr>"
    by (simp add: result_counts_def count_step_def labelled_def result_label_def or_empty_def
        toLowerCase_def toLowerChar_def)
  show ?thesis
    using category_partition [of rs] ex by (simp add: result_counts_def foldl_count_step)
qed

section \<open>Gene panel reconstruction\<close>

lemma object_values_plain:
  "list_all (\<lambda>p. \<not> is_array_index (fst p)) obj \<Longrightarrow> Object_values obj = map snd obj"
proof -
  assume a: "list_all (\<lambda>p. \<not> is_array_index (fst p)) obj"
  then have "filter (\<lambda>p. is_array_index (fst p)) obj = []"
    by (induction obj) auto
  moreover from a have "filter (\<lambda>p. \<not> is_array_index (fst p)) obj = obj"
    by (induction obj) auto
  ultimately show ?thesis by (simp add: Object_values_def)
qed

lemma foldl_panel_step:
  "list_all (\<lambda>r. gene_of r \<notin> set object_prototype_keys) rs \<Longrightarrow>
   foldl panel_step seen rs
     = seen @ map keyed (first_per_gene (fst ` set seen) (map profile_of rs))"
proof (induction rs arbitrary: seen)
  case Nil
  show ?case by simp
next
  case (Cons r rs)
  from Cons.prems have rest: "list_all (\<lambda>r. gene_of r \<notin> set object_prototype_keys) rs"
    and r: "gene_of r \<notin> set object_prototype_keys" by simp_all
  have "foldl panel_step seen (r # rs) = foldl panel_step (panel_step seen r) rs" by simp
  also have "\<dots> = panel_step seen r
      @ map keyed (first_per_gene (fst ` set (panel_step seen r)) (map profile_of rs))"
    by (rule Cons.IH [OF rest])
  also have "\<dots> = seen @ map keyed (first_per_gene (fst ` set seen) (map profile_of (r # rs)))"
    using r by (simp add: panel_step_def has_property_def gene_of_def keyed_def Let_def)
  finally show ?case .
qed

lemma remdups_snoc: "remdups (xs @ [g]) = filter (\<lambda>x. x \<noteq> g) (remdups xs) @ [g]"
  by (induction xs) auto

lemma first_per_gene_fresh:
  "q \<in> set (first_per_gene D ps) \<Longrightarrow>
   or_empty (primary_gene q) \<noteq> [] \<and> or_empty (primary_gene q) \<notin> D \<and> q \<in> set ps"
  by (induction ps arbitrary: D) (auto split: if_splits)

lemma first_per_gene_genes:
  "map (\<lambda>p. or_empty (primary_gene p)) (first_per_gene D ps)
     = rev (remdups (rev (filter (\<lambda>g. g \<noteq> [] \<and> g \<notin> D) (map (\<lambda>p. or_empty (primary_gene p)) ps))))"
proof (induction ps arbitrary: D)
  case Nil
  show ?case by simp
next
  case (Cons p ps)
  let ?g = "or_empty (primary_gene p)"
  show ?case
  proof (cases "?g = [] \<or> ?g \<in> D")
    case True
    then show ?thesis using Cons.IH [of D] by auto
  next
    case False
    let ?gs = "map (\<lambda>p. or_empty (primary_gene p)) ps"
    let ?F = "filter (\<lambda>g. g \<noteq> [] \<and> g \<notin> D) ?gs"
    let ?F' = "filter (\<lambda>g. g \<noteq> [] \<and> g \<notin> insert ?g D) ?gs"
    have eq: "filter (\<lambda>x. x \<noteq> ?g) ?F = ?F'"
      by (induction ps) auto
    have "rev (remdups (rev (?g # ?F))) = rev (remdups (rev ?F @ [?g]))"
      by simp
    also have "\<dots> = rev (filter (\<lambda>x. x \<noteq> ?g) (remdups (rev ?F)) @ [?g])"
      by (simp only: remdups_snoc)
    also have "\<dots> = ?g # rev (remdups (rev (filter (\<lambda>x. x \<noteq> ?g) ?F)))"
      by (simp only: rev_filter remdups_filter rev_append rev.simps append.simps)
    also have "\<dots> = ?g # rev (remdups (rev ?F'))"
      by (simp only: eq)
    finally have rhs: "rev (remdups (rev (?g # ?F))) = ?g # rev (remdups (rev ?F'))" .
    have "map (\<lambda>p. or_empty (primary_gene p)) (first_per_gene D (p # ps))
            = ?g # map (\<lambda>p. or_empty (primary_gene p)) (first_per_gene (insert ?g D) ps)"
      using False by simp
    also have "\<dots> = ?g # rev (remdups (rev ?F'))"
      by (simp only: Cons.IH [of "insert ?g D"])
    also have "\<dots> = rev (remdups (rev (?g # ?F)))"
      by (simp only: rhs)
    also have "?g # ?F = filter (\<lambda>g. g \<noteq> [] \<and> g \<notin> D) (map (\<lambda>p. or_empty (primary_gene p)) (p # ps))"
      using False by simp
    finally show ?thesis .
  qed
qed

lemma first_per_gene_find:
  "q \<in> set (first_per_gene D ps) \<Longrightarrow>
   find (\<lambda>p. or_empty (primary_gene p) = or_empty (primary_gene q)) ps = Some q"
proof (induction ps arbitrary: D)
  case Nil
  then show ?case by simp
next
  case (Cons p ps)
  let ?g = "or_empty (primary_gene p)"
  show ?case
  proof (cases "?g = [] \<or> ?g \<in> D")
    case True
    with Cons.prems have q: "q \<in> set (first_per_gene D ps)" by auto
    from first_per_gene_fresh [OF q] True have "or_empty (primary_gene q) \<noteq> ?g" by auto
    with Cons.IH [OF q] show ?thesis by simp
  next
    case False
    with Cons.prems consider "q = p" | "q \<in> set (first_per_gene (insert ?g D) ps)" by auto
    then show ?thesis
    proof cases
      case 1
      then show ?thesis by simp
    next
      case 2
      from first_per_gene_fresh [OF 2] have "or_empty (primary_gene q) \<noteq> ?g" by auto
      with Cons.IH [OF 2] show ?thesis by simp
    qed
  qed
qed

lemma buildGenePanelFallback_spec:
  assumes "plain_genes (as_array res)"
  shows "buildGenePanelFallback res = gene_panel_spec (as_array res)"
proof -
  let ?rs = "as_array res"
  let ?firsts = "first_per_gene {} (map profile_of ?rs)"
  from assms have plain: "\<And>r. r \<in> set ?rs \<Longrightarrow> plain_key (gene_of r)"
    by (simp add: plain_genes_def gene_of_def list_all_iff)
  then have "list_all (\<lambda>r. gene_of r \<notin> set object_prototype_keys) ?rs"
    by (simp add: list_all_iff plain_key_def)
  then have fold: "foldl panel_step [] ?rs = map keyed ?firsts"
    using foldl_panel_step [of ?rs "[]"] by simp
  have "\<not> is_array_index (fst (keyed q))" if "q \<in> set ?firsts" for q
  proof -
    from first_per_gene_fresh [OF that] obtain r where "r \<in> set ?rs" "q = profile_of r"
      by auto
    with plain [of r] show ?thesis
      by (simp add: keyed_def gene_of_def plain_key_def)
  qed
  then have "list_all (\<lambda>p. \<not> is_array_index (fst p)) (map keyed ?firsts)"
    by (simp add: list_all_iff)
  then have "Object_values (map keyed ?firsts) = map snd (map keyed ?firsts)"
    by (rule object_values_plain)
  with fold show ?thesis
    by (simp add: buildGenePanelFallback_def gene_panel_spec_def keyed_def comp_def)
qed

lemma gene_of_fun: "gene_of = (\<lambda>r. or_empty (primary_gene (profile_of r)))"
  by (simp add: fun_eq_iff gene_of_def)

lemma gene_panel_spec_genes:
  "map gp_gene (gene_panel_spec rs) = rev (remdups (rev (filter (\<lambda>g. g \<noteq> []) (map gene_of rs))))"
proof -
  have "map gp_gene (gene_panel_spec rs)
          = map (\<lambda>p. or_empty (primary_gene p)) (first_per_gene {} (map profile_of rs))"
    by (simp add: gene_panel_spec_def panel_entry_def comp_def)
  also have "\<dots> = rev (remdups (rev (filter (\<lambda>g. g \<noteq> [] \<and> g \<notin> {})
                       (map (\<lambda>p. or_empty (primary_gene p)) (map profile_of rs)))))"
    by (rule first_per_gene_genes)
  also have "\<dots> = rev (remdups (rev (filter (\<lambda>g. g \<noteq> []) (map gene_of rs))))"
    by (simp add: comp_def gene_of_fun)
  finally show ?thesis .
qed

lemma gene_panel_spec_entries:
  assumes "e \<in> set (gene_panel_spec rs)"
  shows "\<exists>p. find (\<lambda>p. or_empty (primary_gene p) = gp_gene e) (map profile_of rs) = Some p
              \<and> e = panel_entry (gp_gene e) p"
proof -
  from assms obtain q where q: "q \<in> set (first_per_gene {} (map profile_of rs))"
    and e: "e = panel_entry (or_empty (primary_gene q)) q"
    by (auto simp: gene_panel_spec_def)
  from e have g: "gp_gene e = or_empty (primary_gene q)"
    by (simp add: panel_entry_def)
  from first_per_gene_find [OF q] e g show ?thesis by simp
qed

text \<open>
  Claim C4, as amended. For every result list whose primary gene names are plain keys
  (neither an array index nor the name of a property inherited from \<^verbatim>\<open>Object.prototype\<close>),
  the reconstructed panel is the list of entries built from the first result of each gene:
  its gene names are the non-empty primary genes of the results, each once, in the order
  of first occurrence, and every entry is \<^const>\<open>panel_entry\<close> of the first result that
  has its gene, so later results of the same gene and results without a gene contribute
  nothing.
\<close>

theorem gene_panel_first_occurrence:
  assumes "plain_genes (as_array res)"
  shows "buildGenePanelFallback res = gene_panel_spec (as_array res)
    \<and> map gp_gene (buildGenePanelFallback res)
        = rev (remdups (rev (filter (\<lambda>g. g \<noteq> []) (map gene_of (as_array res)))))
    \<and> distinct (map gp_gene (buildGenePanelFallback res))
    \<and> (\<forall>e \<in> set (buildGenePanelFallback res).
          \<exists>p. find (\<lambda>p. or_empty (primary_gene p) = gp_gene e) (map profile_of (as_array res))
                 = Some p
              \<and> e = panel_entry (gp_gene e) p)"
proof -
  note eq = buildGenePanelFallback_spec [OF assms]
  have genes: "map gp_gene (buildGenePanelFallback res)
        = rev (remdups (rev (filter (\<lambda>g. g \<noteq> []) (map gene_of (as_array res)))))"
    by (simp only: eq gene_panel_spec_genes)
  have "distinct (rev (remdups (rev (filter (\<lambda>g. g \<noteq> []) (map gene_of (as_array res))))))"
    by simp
  then have dist: "distinct (map gp_gene (buildGenePanelFallback res))"
    by (simp only: genes)
  from eq genes dist gene_panel_spec_entries [of _ "as_array res"] show ?thesis
    by simp
qed

text \<open>
  The example of the specification: the genes CYP2D6, CYP2C19, CYP2D6 give two entries, in
  this order, and the CYP2D6 entry carries the variants of the first CYP2D6 result.
\<close>

theorem gene_panel_first_occurrence_witness:
  "plain_genes [gene_result ''CYP2D6'' [1], gene_result ''CYP2C19'' [2], gene_result ''CYP2D6'' [3]]
   \<and> map gp_gene (buildGenePanelFallback (ResultArray
         [gene_result ''CYP2D6'' [1], gene_result ''CYP2C19'' [2], gene_result ''CYP2D6'' [3]]))
       = [''CYP2D6'', ''CYP2C19'']
   \<and> map gp_variants (buildGenePanelFallback (ResultArray
         [gene_result ''CYP2D6'' [1], gene_result ''CYP2C19'' [2], gene_result ''CYP2D6'' [3]]))
       = [[1], [2]]"
proof -
  let ?rs = "[gene_result ''CYP2D6'' [1], gene_result ''CYP2C19'' [2], gene_result ''CYP2D6'' [3]]"
  have plain: "plain_genes (as_array (ResultArray ?rs))"
    by (simp add: plain_genes_def plain_key_def is_array_index_def is_digit_def
        object_prototype_keys_def as_array_def gene_result_def profile_of_def or_empty_def)
  have spec: "gene_panel_spec ?rs =
      [panel_entry ''CYP2D6'' (profile_of (gene_result ''CYP2D6'' [1])),
       panel_entry ''CYP2C19'' (profile_of (gene_result ''CYP2C19'' [2]))]"
    by (simp add: gene_panel_spec_def gene_result_def profile_of_def or_empty_def)
  from gene_panel_first_occurrence [OF plain] plain spec show ?thesis
    by (simp add: as_array_def panel_entry_def variants_of_def gene_result_def profile_of_def)
qed

text \<open>
  Claim C4, as stated, fails for gene names that are array indices: the results for the
  genes 2 and 1, in this order, give the panel 1, 2, which is not the order of first
  occurrence. It also fails for a gene that has the name of an inherited property: a
  result for the gene \<^verbatim>\<open>constructor\<close> gets no entry.
\<close>

theorem gene_panel_numeric_genes_reordered:
  "map gp_gene (buildGenePanelFallback (ResultArray [gene_result ''2'' [1], gene_result ''1'' [2]]))
     = [''1'', ''2'']
   \<and> rev (remdups (rev (filter (\<lambda>g. g \<noteq> [])
         (map gene_of [gene_result ''2'' [1], gene_result ''1'' [2]])))) = [''2'', ''1'']
   \<and> buildGenePanelFallback (ResultArray [gene_result ''constructor'' [1]]) = []"
  by (simp add: buildGenePanelFallback_def as_array_def panel_step_def has_property_def
      object_prototype_keys_def Object_values_def is_array_index_def is_digit_def
      digits_value_def digit_value_def gene_of_def gene_result_def profile_of_def
      or_empty_def panel_entry_def Let_def)

section \<open>Fetch by patient id\<close>

lemma or_default_nonempty: "d \<noteq> [] \<Longrightarrow> or_default x d \<noteq> []"
  by (simp add: or_default_def split: option.splits)




text \<open>
  Claim C10. When the request rejects or the payload is not a success, the result list,
  the gene panel and the upload metadata of the Results page are what they were before the
  fetch, and the state after the handler differs from the state before it only in the
  error message, which is set to a non-empty text, and in the fetching flag, which is
  cleared. (With a blank patient id no request is made and nothing changes.)
\<close>

theorem fetch_failure_atomic:
  assumes "failed out"
  shows "rp_results (handleFetchByPatient out s) = rp_results s
       \<and> rp_genePanel (handleFetchByPatient out s) = rp_genePanel s
       \<and> activeUploadData (handleFetchByPatient out s) = activeUploadData s
       \<and> fetchPatientId (handleFetchByPatient out s) = fetchPatientId s
       \<and> (blank (fetchPatientId s) \<longrightarrow> handleFetchByPatient out s = s)
       \<and> (\<not> blank (fetchPatientId s) \<longrightarrow>
            (\<exists>msg. msg \<noteq> [] \<and>
               handleFetchByPatient out s = s\<lparr>fetchError := Some msg, fetching := False\<rparr>))"
proof -
  from assms obtain m where m: "getResultsByPatient out = Inl m"
    by (auto simp: failed_def getResultsByPatient_def split: outcome.splits)
  have ne: "or_default (Some m) ''Failed to fetch results.'' \<noteq> []"
    by (rule or_default_nonempty) simp
  show ?thesis
  proof (cases "blank (fetchPatientId s)")
    case True
    then show ?thesis by (simp add: handleFetchByPatient_def)
  next
    case False
    then have "handleFetchByPatient out s
        = s\<lparr>fetchError := Some (or_default (Some m) ''Failed to fetch results.''), fetching := False\<rparr>"
      by (simp add: handleFetchByPatient_def m Let_def)
    with False ne show ?thesis by auto
  qed
qed

text \<open>
  A payload with \<^verbatim>\<open>success: false\<close> and a nested error text.
\<close>

theorem fetch_failure_atomic_witness:
  "failed example_failure
   \<and> \<not> blank (fetchPatientId example_results_page)
   \<and> rp_results (handleFetchByPatient example_failure example_results_page)
       = [gene_result ''CYP2D6'' [7]]
   \<and> fetchError (handleFetchByPatient example_failure example_results_page)
       = Some ''VCF could not be parsed''
   \<and> \<not> fetching (handleFetchByPatient example_failure example_results_page)"
proof -
  have h: "failed example_failure"
    by (simp add: failed_def example_failure_def not_success_def)
  have nb: "\<not> blank (fetchPatientId example_results_page)"
    by (simp add: example_results_page_def blank_def trimStart_def ws_length_def white_space_def)
  have e: "fetchError (handleFetchByPatient example_failure example_results_page)
       = Some ''VCF could not be parsed''"
    using nb
    by (simp add: handleFetchByPatient_def getResultsByPatient_def example_failure_def
        not_success_def or_else_def or_default_def Let_def)
  from fetch_failure_atomic [OF h, of example_results_page] h nb e show ?thesis
    by (auto simp: example_results_page_def)
qed

section \<open>The pipeline orchestrator\<close>

lemma run_Nil: "run [] s = s"
  by (simp add: run_def)

lemma run_Cons: "run (e # es) s = run es (deliver e s)"
  by (simp add: run_def)

lemma run_append: "run (xs @ ys) s = run ys (run xs s)"
  by (simp add: run_def)

lemma observe_append: "observe (xs @ ys) s = observe xs s @ observe ys (run xs s)"
  by (induction xs arbitrary: s) (simp_all add: run_Nil run_Cons)

lemma handleSubmit_ready:
  assumes "mounted s" and "vcf_file (page s) = Some f" and "selectedDrugs (page s) \<noteq> []"
  shows "handleSubmit s =
     s\<lparr>page := (page s)\<lparr>loading := True, pipelineStep := 1\<rparr>, step := 1, ticker := True,
       phase := Awaiting,
       requests := requests s @
         [\<lparr>req_file = f, req_patientCode = patientCode (page s),
           req_drugs = selectedDrugs (page s),
           req_concurrentMedications = selectedMeds (page s)\<rparr>]\<rparr>"
  using assms by (simp add: handleSubmit_def set_page_def)

text \<open>The state in which the ticker runs in front of the mounted loader.\<close>

lemma tick_mounted:
  assumes "mounted s" and "ticker s"
  shows "deliver Tick s =
     s\<lparr>step := min (step s + 1) 6, page := (page s)\<lparr>pipelineStep := min (step s + 1) 6\<rparr>\<rparr>"
  using assms by (simp add: deliver_def set_page_def)

lemma ticks_mounted:
  assumes "mounted s" and "ticker s" and "pipelineStep (page s) = step s" and "step s \<le> 6"
  shows "run (replicate n Tick) s =
     s\<lparr>step := min (step s + n) 6, page := (page s)\<lparr>pipelineStep := min (step s + n) 6\<rparr>\<rparr>"
  using assms
proof (induction n arbitrary: s)
  case 0
  have "(page s)\<lparr>pipelineStep := step s\<rparr> = page s"
    using "0.prems"(3) [symmetric] by simp
  with "0.prems" show ?case by (simp add: run_Nil min_absorb1)
next
  case (Suc n)
  let ?t = "deliver Tick s"
  have t: "?t = s\<lparr>step := min (step s + 1) 6,
                    page := (page s)\<lparr>pipelineStep := min (step s + 1) 6\<rparr>\<rparr>"
    by (rule tick_mounted) (use Suc.prems in simp_all)
  have "run (replicate (Suc n) Tick) s = run (replicate n Tick) ?t"
    by (simp add: run_Cons)
  also have "\<dots> = ?t\<lparr>step := min (step ?t + n) 6,
                         page := (page ?t)\<lparr>pipelineStep := min (step ?t + n) 6\<rparr>\<rparr>"
    by (rule Suc.IH) (simp_all add: t Suc.prems)
  also have "\<dots> = s\<lparr>step := min (step s + Suc n) 6,
                        page := (page s)\<lparr>pipelineStep := min (step s + Suc n) 6\<rparr>\<rparr>"
    by (simp add: t min_def)
  finally show ?case .
qed

lemma observe_ticks_mounted:
  assumes "mounted s" and "ticker s"
  shows "observe (replicate n Tick) s = map (\<lambda>i. min (step s + 1 + i) 6) [0..<n]"
  using assms
proof (induction n arbitrary: s)
  case 0
  show ?case by simp
next
  case (Suc n)
  let ?t = "deliver Tick s"
  have t: "?t = s\<lparr>step := min (step s + 1) 6,
                    page := (page s)\<lparr>pipelineStep := min (step s + 1) 6\<rparr>\<rparr>"
    by (rule tick_mounted) (use Suc.prems in simp_all)
  have ih: "observe (replicate n Tick) ?t = map (\<lambda>i. min (step ?t + 1 + i) 6) [0..<n]"
    by (rule Suc.IH) (simp_all add: t Suc.prems)
  have shift: "map (\<lambda>i. min (step s + 1 + i) 6) [0..<Suc n]
      = min (step s + 1) 6 # map (\<lambda>i. min (min (step s + 1) 6 + 1 + i) 6) [0..<n]"
    by (simp add: upt_conv_Cons map_Suc_upt [symmetric] min_def del: upt_Suc)
  have "observe (replicate (Suc n) Tick) s
      = pipelineStep (page ?t) # observe (replicate n Tick) ?t"
    by simp
  also have "\<dots> = min (step s + 1) 6 # map (\<lambda>i. min (min (step s + 1) 6 + 1 + i) 6) [0..<n]"
    by (simp add: ih) (simp add: t)
  finally show ?case by (simp only: shift)
qed

lemma ticks_cancelled: "\<not> ticker s \<Longrightarrow> run (replicate m Tick) s = s"
  by (induction m) (simp_all add: run_Nil run_Cons deliver_def)

lemma observe_ticks_cancelled:
  "\<not> ticker s \<Longrightarrow> observe (replicate m Tick) s = replicate m (pipelineStep (page s))"
  by (induction m) (simp_all add: deliver_def)

lemma before_arrival:
  assumes "phase s = Awaiting" and "step s \<le> 6" and "pipelineStep (page s) \<le> 6"
    and "list_all (\<lambda>e. \<not> is_arrival e) es"
  shows "phase (run es s) = Awaiting \<and> step (run es s) \<le> 6
       \<and> pipelineStep (page (run es s)) \<le> 6"
  using assms
proof (induction es arbitrary: s)
  case Nil
  then show ?case by (simp add: run_Nil)
next
  case (Cons e es)
  from Cons.prems have "phase (deliver e s) = Awaiting \<and> step (deliver e s) \<le> 6
       \<and> pipelineStep (page (deliver e s)) \<le> 6"
    by (cases e) (simp_all add: deliver_def set_page_def is_arrival_def)
  with Cons.IH [of "deliver e s"] Cons.prems show ?case
    by (simp add: run_Cons)
qed

lemma arrive_success:
  assumes "mounted s" and "phase s = Awaiting" and "analyzeVCF out = Inr d"
  shows "deliver (Arrive out) s =
     s\<lparr>ticker := False, phase := Holding d, page := (page s)\<lparr>pipelineStep := 7\<rparr>\<rparr>"
  using assms by (simp add: deliver_def set_page_def)

text \<open>
  Claim C6. After a valid submission the stage is 1; after \<open>n\<close> ticks it is
  \<open>min (n + 1) 6\<close>; whatever happens before the response arrives, it is at most 6. When the
  successful response arrives after \<open>n\<close> ticks the ticker is cancelled, and further ticks
  change nothing: the stages displayed along \<open>n\<close> ticks, the arrival and \<open>m\<close> more tick
  attempts are \<open>2, 3, \<dots>\<close> capped at 6, then 7, then 7 for good.
\<close>

theorem ticker_capped_then_complete:
  assumes "mounted s" and "vcf_file (page s) = Some f" and "selectedDrugs (page s) \<noteq> []"
    and "analyzeVCF out = Inr d"
  shows "pipelineStep (page (handleSubmit s)) = 1
    \<and> pipelineStep (page (run (replicate n Tick) (handleSubmit s))) = min (n + 1) 6
    \<and> (list_all (\<lambda>e. \<not> is_arrival e) es \<longrightarrow>
          pipelineStep (page (run es (handleSubmit s))) \<le> 6)
    \<and> observe (replicate n Tick @ [Arrive out] @ replicate m Tick) (handleSubmit s)
        = map (\<lambda>i. min (i + 2) 6) [0..<n] @ replicate (Suc m) 7
    \<and> \<not> ticker (run (replicate n Tick @ [Arrive out]) (handleSubmit s))
    \<and> run (replicate n Tick @ [Arrive out] @ replicate m Tick) (handleSubmit s)
        = run (replicate n Tick @ [Arrive out]) (handleSubmit s)"
proof -
  let ?s1 = "handleSubmit s"
  let ?s2 = "run (replicate n Tick) ?s1"
  let ?s3 = "deliver (Arrive out) ?s2"
  note s1 = handleSubmit_ready [OF assms(1-3)]
  have inv1: "mounted ?s1" "ticker ?s1" "pipelineStep (page ?s1) = step ?s1" "step ?s1 = 1"
    "phase ?s1 = Awaiting"
    using assms(1) by (simp_all add: s1)
  have s2: "?s2 = ?s1\<lparr>step := min (step ?s1 + n) 6,
                       page := (page ?s1)\<lparr>pipelineStep := min (step ?s1 + n) 6\<rparr>\<rparr>"
    by (rule ticks_mounted) (simp_all add: inv1)
  have inv2: "mounted ?s2" "phase ?s2 = Awaiting" "pipelineStep (page ?s2) = min (n + 1) 6"
    by (simp_all add: s2 inv1 add.commute)
  have s3: "?s3 = ?s2\<lparr>ticker := False, phase := Holding d,
                       page := (page ?s2)\<lparr>pipelineStep := 7\<rparr>\<rparr>"
    by (rule arrive_success) (simp_all add: inv2 assms(4))
  have inv3: "\<not> ticker ?s3" "pipelineStep (page ?s3) = 7"
    by (simp_all add: s3)
  have bound: "list_all (\<lambda>e. \<not> is_arrival e) es \<longrightarrow> pipelineStep (page (run es ?s1)) \<le> 6"
    using before_arrival [of ?s1 es] by (simp add: inv1)
  have obs1: "observe (replicate n Tick) ?s1 = map (\<lambda>i. min (i + 2) 6) [0..<n]"
    using observe_ticks_mounted [of ?s1 n] by (simp add: inv1 add.commute)
  have obs: "observe (replicate n Tick @ [Arrive out] @ replicate m Tick) ?s1
        = map (\<lambda>i. min (i + 2) 6) [0..<n] @ replicate (Suc m) 7"
    by (simp add: observe_append obs1 run_Cons run_Nil observe_ticks_cancelled inv3)
  have frozen: "run (replicate n Tick @ [Arrive out] @ replicate m Tick) ?s1
        = run (replicate n Tick @ [Arrive out]) ?s1"
    by (simp add: run_append run_Cons run_Nil ticks_cancelled inv3)
  have stop: "\<not> ticker (run (replicate n Tick @ [Arrive out]) ?s1)"
    by (simp add: run_append run_Cons run_Nil inv3)
  from inv1 inv2 bound obs frozen stop show ?thesis
    by simp
qed

text \<open>
  A response delayed by seven ticks: the stage stays at 6 for three ticks, then turns 7 once.
\<close>

theorem ticker_capped_then_complete_witness:
  "mounted example_session \<and> vcf_file (page example_session) = Some 0
   \<and> selectedDrugs (page example_session) \<noteq> []
   \<and> analyzeVCF example_success = Inr (Some example_data)
   \<and> observe (replicate 7 Tick @ [Arrive example_success] @ replicate 2 Tick)
         (handleSubmit example_session)
       = [2, 3, 4, 5, 6, 6, 6, 7, 7, 7]"
proof -
  have h: "mounted example_session" "vcf_file (page example_session) = Some 0"
    "selectedDrugs (page example_session) \<noteq> []"
    "analyzeVCF example_success = Inr (Some example_data)"
    by (simp_all add: example_session_def example_page_def example_success_def analyzeVCF_def
        not_success_def)
  have "map (\<lambda>i. min (i + 2) 6) [0..<7] @ replicate (Suc 2) 7 = [2, 3, 4, 5, 6, 6, 6, 7, 7, 7::nat]"
    by (simp add: upt_conv_Cons numeral_eq_Suc)
  with ticker_capped_then_complete [OF h, of 7 "[]" 2] h show ?thesis
    by simp
qed

lemma ticks_unmounted:
  assumes "\<not> mounted s" and "ticker s" and "step s \<le> 6"
  shows "run (replicate m Tick) s = s\<lparr>step := min (step s + m) 6\<rparr>"
  using assms
proof (induction m arbitrary: s)
  case 0
  then show ?case by (simp add: run_Nil min_absorb1)
next
  case (Suc m)
  let ?t = "deliver Tick s"
  have t: "?t = s\<lparr>step := min (step s + 1) 6\<rparr>"
    using Suc.prems by (simp add: deliver_def set_page_def)
  have "run (replicate m Tick) ?t = ?t\<lparr>step := min (step ?t + m) 6\<rparr>"
    by (rule Suc.IH) (simp_all add: t Suc.prems)
  then show ?case
    by (simp add: run_Cons t min_def)
qed

lemma hold_elapsed_success:
  assumes "phase s = Holding (Some d)"
  shows "deliver HoldElapsed s =
     s\<lparr>shell := handleResults (as_array (results d))
            \<lparr>ud_patient_code = patient_code d, ud_patient_id = patient_id d,
              ud_total_variants_found = total_variants_parsed d\<rparr>
            (case gene_panel d of None \<Rightarrow> [] | Some g \<Rightarrow> g) (shell s),
       mounted := False, phase := Finished\<rparr>"
  using assms by (simp add: deliver_def)


text \<open>
  Claim C7, as amended. When the user navigates away from the upload view while the
  pipeline is in states 1 to 6, the state of the unmounted view is not updated any more,
  but the ticker is not stopped by the navigation: its callback keeps running, advancing
  the counter of the closure up to 6, until the response arrives and clears it. A
  successful response is not discarded: after the hold it is handed to the application
  shell, which stores the results and shows the results view.
\<close>

theorem navigation_keeps_ticker_and_response:
  assumes "mounted s" and "vcf_file (page s) = Some f" and "selectedDrugs (page s) \<noteq> []"
    and "to \<noteq> UploadView" and "analyzeVCF out = Inr (Some d)"
  shows "ticker (run (replicate n Tick @ [Navigate to]) (handleSubmit s))
    \<and> \<not> mounted (run (replicate n Tick @ [Navigate to]) (handleSubmit s))
    \<and> step (run (replicate n Tick @ [Navigate to] @ replicate m Tick) (handleSubmit s))
        = min (n + 1 + m) 6
    \<and> page (run (replicate n Tick @ [Navigate to] @ replicate m Tick) (handleSubmit s))
        = page (run (replicate n Tick) (handleSubmit s))
    \<and> \<not> ticker (run (replicate n Tick @ [Navigate to] @ replicate m Tick @ [Arrive out])
          (handleSubmit s))
    \<and> page (run (replicate n Tick @ [Navigate to] @ replicate m Tick @ [Arrive out, HoldElapsed])
          (handleSubmit s))
        = page (run (replicate n Tick) (handleSubmit s))
    \<and> shell (run (replicate n Tick @ [Navigate to] @ replicate m Tick @ [Arrive out, HoldElapsed])
          (handleSubmit s))
        = handleResults (as_array (results d))
            \<lparr>ud_patient_code = patient_code d, ud_patient_id = patient_id d,
              ud_total_variants_found = total_variants_parsed d\<rparr>
            (case gene_panel d of None \<Rightarrow> [] | Some g \<Rightarrow> g)
            (navigate to (shell s))
    \<and> view (shell (run (replicate n Tick @ [Navigate to] @ replicate m Tick
          @ [Arrive out, HoldElapsed]) (handleSubmit s))) = ResultsView"
proof -
  let ?s1 = "handleSubmit s"
  let ?s2 = "run (replicate n Tick) ?s1"
  let ?s3 = "deliver (Navigate to) ?s2"
  let ?s4 = "run (replicate m Tick) ?s3"
  let ?s5 = "deliver (Arrive out) ?s4"
  let ?s6 = "deliver HoldElapsed ?s5"
  note s1 = handleSubmit_ready [OF assms(1-3)]
  have inv1: "mounted ?s1" "ticker ?s1" "pipelineStep (page ?s1) = step ?s1" "step ?s1 = 1"
    "phase ?s1 = Awaiting" "shell ?s1 = shell s"
    using assms(1) by (simp_all add: s1)
  have s2: "?s2 = ?s1\<lparr>step := min (step ?s1 + n) 6,
                       page := (page ?s1)\<lparr>pipelineStep := min (step ?s1 + n) 6\<rparr>\<rparr>"
    by (rule ticks_mounted) (simp_all add: inv1)
  have inv2: "ticker ?s2" "phase ?s2 = Awaiting" "step ?s2 = min (n + 1) 6" "shell ?s2 = shell s"
    by (simp_all add: s2 inv1 add.commute)
  have s3: "?s3 = ?s2\<lparr>shell := navigate to (shell ?s2), mounted := False\<rparr>"
    using assms(4) by (simp add: deliver_def)
  have inv3: "\<not> mounted ?s3" "ticker ?s3" "step ?s3 \<le> 6" "phase ?s3 = Awaiting"
    "page ?s3 = page ?s2" "step ?s3 = min (n + 1) 6" "shell ?s3 = navigate to (shell s)"
    by (simp_all add: s3 inv2)
  have s4: "?s4 = ?s3\<lparr>step := min (step ?s3 + m) 6\<rparr>"
    by (rule ticks_unmounted) (simp_all add: inv3)
  have inv4: "\<not> mounted ?s4" "phase ?s4 = Awaiting" "page ?s4 = page ?s2"
    "step ?s4 = min (n + 1 + m) 6" "shell ?s4 = navigate to (shell s)"
    by (simp_all add: s4 inv3 min_def)
  have s5: "?s5 = ?s4\<lparr>ticker := False, phase := Holding (Some d)\<rparr>"
    using inv4 assms(5) by (simp add: deliver_def set_page_def)
  have s6: "?s6 = ?s5\<lparr>shell := handleResults (as_array (results d))
                    \<lparr>ud_patient_code = patient_code d, ud_patient_id = patient_id d,
                      ud_total_variants_found = total_variants_parsed d\<rparr>
                    (case gene_panel d of None \<Rightarrow> [] | Some g \<Rightarrow> g) (shell ?s5),
                 mounted := False, phase := Finished\<rparr>"
    by (rule hold_elapsed_success) (simp add: s5)
  have r3: "run (replicate n Tick @ [Navigate to]) ?s1 = ?s3"
    by (simp add: run_append run_Cons run_Nil)
  have r4: "run (replicate n Tick @ [Navigate to] @ replicate m Tick) ?s1 = ?s4"
    by (simp add: run_append run_Cons run_Nil)
  have r5: "run (replicate n Tick @ [Navigate to] @ replicate m Tick @ [Arrive out]) ?s1 = ?s5"
    by (simp add: run_append run_Cons run_Nil)
  have r6: "run (replicate n Tick @ [Navigate to] @ replicate m Tick @ [Arrive out, HoldElapsed]) ?s1
      = ?s6"
    by (simp add: run_append run_Cons run_Nil)
  have c1: "ticker ?s3" "\<not> mounted ?s3" by (simp_all add: inv3)
  have c2: "step ?s4 = min (n + 1 + m) 6" "page ?s4 = page ?s2" by (simp_all add: inv4)
  have c3: "\<not> ticker ?s5" by (simp add: s5)
  have c4: "page ?s6 = page ?s2" unfolding s6 by (simp add: s5 inv4)
  have c5: "shell ?s6 = handleResults (as_array (results d))
            \<lparr>ud_patient_code = patient_code d, ud_patient_id = patient_id d,
              ud_total_variants_found = total_variants_parsed d\<rparr>
            (case gene_panel d of None \<Rightarrow> [] | Some g \<Rightarrow> g)
            (navigate to (shell s))"
    unfolding s6 by (simp add: s5 inv4)
  have c6: "view (shell ?s6) = ResultsView"
    by (simp add: c5 handleResults_def)
  show ?thesis
    unfolding r3 r4 r5 r6 using c1 c2 c3 c4 c5 c6 by blast
qed

text \<open>
  Two ticks, a navigation to the home view, one more tick, then the response.
\<close>

theorem navigation_keeps_ticker_and_response_witness:
  "mounted example_session \<and> vcf_file (page example_session) = Some 0
   \<and> selectedDrugs (page example_session) \<noteq> [] \<and> HomeView \<noteq> UploadView
   \<and> analyzeVCF example_success = Inr (Some example_data)
   \<and> ticker (run (replicate 2 Tick @ [Navigate HomeView]) (handleSubmit example_session))
   \<and> step (run (replicate 2 Tick @ [Navigate HomeView] @ replicate 1 Tick)
         (handleSubmit example_session)) = 4
   \<and> view (shell (run (replicate 2 Tick @ [Navigate HomeView] @ replicate 1 Tick
         @ [Arrive example_success, HoldElapsed]) (handleSubmit example_session))) = ResultsView"
proof -
  have h: "mounted example_session" "vcf_file (page example_session) = Some 0"
    "selectedDrugs (page example_session) \<noteq> []" "HomeView \<noteq> UploadView"
    "analyzeVCF example_success = Inr (Some example_data)"
    by (simp_all add: example_session_def example_page_def example_success_def analyzeVCF_def
        not_success_def)
  from navigation_keeps_ticker_and_response [OF h, of 2 1] h show ?thesis
    by (simp add: handleResults_def)
qed

text \<open>
  Claim C7, as stated, fails: after a navigation to the home view the ticker is still
  armed and its callback still runs, and the response that arrives later puts the
  application into the results view, with the results stored.
\<close>

theorem navigation_does_not_cancel:
  "ticker (run [Navigate HomeView] (handleSubmit example_session))
   \<and> step (run [Navigate HomeView, Tick] (handleSubmit example_session)) = 2
   \<and> view (shell (run [Navigate HomeView, Arrive example_success, HoldElapsed]
         (handleSubmit example_session))) = ResultsView
   \<and> app_results (shell (run [Navigate HomeView, Arrive example_success, HoldElapsed]
         (handleSubmit example_session))) = [gene_result ''CYP2C9'' [1]]"
  by (simp add: run_def deliver_def handleSubmit_def set_page_def example_session_def
      example_page_def example_success_def example_data_def analyzeVCF_def not_success_def
      navigate_def handleResults_def as_array_def)





section \<open>Numbers\<close>

text \<open>The exponent that \<^const>\<open>round64\<close> works with is the binary logarithm, rounded down.\<close>

lemma ilog2_bounds:
  assumes "0 < a"
  shows "2 powi (ilog2 a) \<le> a \<and> a < 2 powi (ilog2 a + 1)"
proof (cases "1 \<le> a")
  case True
  let ?f = "\<lfloor>a\<rfloor>"
  from True have f: "1 \<le> ?f" by simp
  then have f0: "0 < ?f" by simp
  from f have b1: "1 \<le> bitlen ?f" by (simp add: bitlen_ge_iff_power)
  from bitlen_bounds [OF f0] have lo: "2 ^ nat (bitlen ?f - 1) \<le> ?f"
    and hi: "?f < 2 ^ nat (bitlen ?f)" by simp_all
  have e: "ilog2 a = bitlen ?f - 1" using True by (simp add: ilog2_def)
  have "(2::rat) powi (bitlen ?f - 1) = 2 ^ nat (bitlen ?f - 1)"
    using b1 by (simp add: power_int_nonneg_exp)
  also have "\<dots> = of_int (2 ^ nat (bitlen ?f - 1))" by simp
  also have "\<dots> \<le> of_int ?f" using lo by (simp only: of_int_le_iff)
  also have "\<dots> \<le> a" by simp
  finally have low: "2 powi (ilog2 a) \<le> a" by (simp add: e)
  from hi have "?f + 1 \<le> 2 ^ nat (bitlen ?f)" by simp
  then have "(of_int (?f + 1) :: rat) \<le> of_int (2 ^ nat (bitlen ?f))"
    by (simp only: of_int_le_iff)
  moreover have "a < of_int (?f + 1)" by linarith
  ultimately have "a < of_int (2 ^ nat (bitlen ?f))" by linarith
  also have "\<dots> = (2::rat) ^ nat (bitlen ?f)" by simp
  also have "\<dots> = 2 powi (bitlen ?f)" using b1 by (simp add: power_int_nonneg_exp)
  finally have "a < 2 powi (ilog2 a + 1)" by (simp add: e)
  with low show ?thesis by simp
next
  case False
  let ?y = "1 / a"
  let ?c = "\<lceil>?y\<rceil>"
  let ?b = "bitlen (?c - 1)"
  from False assms have y1: "1 < ?y" by simp
  then have c2: "2 \<le> ?c" by (simp add: le_ceiling_iff)
  then have c0: "0 < ?c - 1" by simp
  from c2 have b1: "1 \<le> ?b" by (simp add: bitlen_ge_iff_power)
  from bitlen_bounds [OF c0] have lo: "2 ^ nat (?b - 1) \<le> ?c - 1"
    and hi: "?c - 1 < 2 ^ nat ?b" by simp_all
  have e: "ilog2 a = - ?b" using False by (simp add: ilog2_def)
  have "(of_int (?c - 1) :: rat) < ?y" by linarith
  moreover have "(of_int (2 ^ nat (?b - 1)) :: rat) \<le> of_int (?c - 1)"
    using lo by (simp only: of_int_le_iff)
  ultimately have ylow: "(2::rat) ^ nat (?b - 1) < ?y" by simp
  from hi have "?c \<le> 2 ^ nat ?b" by simp
  then have cb: "(of_int ?c :: rat) \<le> of_int (2 ^ nat ?b)" by (simp only: of_int_le_iff)
  have "?y \<le> of_int ?c" by linarith
  also note cb
  also have "(of_int (2 ^ nat ?b) :: rat) = 2 ^ nat ?b" by simp
  finally have yhigh: "?y \<le> (2::rat) ^ nat ?b" .
  have p1: "(2::rat) powi (- ?b) = 1 / 2 ^ nat ?b"
    using b1 power_int_minus [of "2::rat" ?b] by (simp add: power_int_nonneg_exp field_simps)
  have p2: "(2::rat) powi (1 - ?b) = 1 / 2 ^ nat (?b - 1)"
    using b1 power_int_minus [of "2::rat" "?b - 1"]
    by (simp add: power_int_nonneg_exp inverse_eq_divide)
  from yhigh assms have "1 / 2 ^ nat ?b \<le> a"
    by (simp add: field_simps)
  moreover from ylow assms have "a < 1 / 2 ^ nat (?b - 1)"
    by (simp add: field_simps)
  ultimately show ?thesis by (simp add: e p1 p2)
qed

lemma white_space_heads: "w \<in> set white_space \<Longrightarrow> w \<noteq> [] \<and> \<not> is_digit (hd w)"
  by (auto simp: white_space_def is_digit_def)

lemma ws_length_digit:
  assumes "is_digit c"
  shows "ws_length (c # cs) = 0"
proof -
  have "\<not> prefix w (c # cs)" if "w \<in> set white_space" for w
  proof
    assume p: "prefix w (c # cs)"
    from white_space_heads [OF that] obtain x w' where w: "w = x # w'" and x: "\<not> is_digit x"
      by (cases w) auto
    from p w have "x = c" by simp
    with x assms show False by simp
  qed
  then have "find (\<lambda>w. prefix w (c # cs)) white_space = None"
    by (simp add: find_None_iff)
  then show ?thesis by (simp add: ws_length_def)
qed

lemma trimStart_digit: "is_digit c \<Longrightarrow> trimStart (c # cs) = c # cs"
  by (simp add: trimStart_def ws_length_digit)

lemma digit_not_sign:
  "is_digit c \<Longrightarrow> c \<noteq> CHR ''-'' \<and> c \<noteq> CHR ''+'' \<and> c \<noteq> CHR ''I''"
  by (auto simp: is_digit_def)

lemma digit_value_nonneg: "0 \<le> digit_value c"
  by (simp add: digit_value_def split: option.splits if_splits)

lemma digits_value_nonneg_aux: "0 \<le> n \<Longrightarrow> 0 \<le> foldl (\<lambda>n c. 10 * n + digit_value c) n s"
  by (induction s arbitrary: n) (simp_all add: digit_value_nonneg)

lemma digits_value_nonneg: "0 \<le> digits_value s"
  by (simp add: digits_value_def digits_value_nonneg_aux)

lemma exponent_part_Nil: "exponent_part [] = 0"
  by (simp add: exponent_part_def after_prefix_def)

lemma unsigned_decimal_digits:
  assumes "list_all is_digit s" and "s \<noteq> []"
  shows "unsigned_decimal s = Some (of_int (digits_value s))"
proof -
  from assms(1) have tw: "takeWhile is_digit s = s" and dw: "dropWhile is_digit s = []"
    by (simp_all add: list_all_iff)
  have ap: "after_prefix ''.'' [] = None"
    by (simp add: after_prefix_def)
  show ?thesis
    unfolding unsigned_decimal_def tw dw ap Let_def using assms(2)
    by (simp add: exponent_part_Nil)
qed

lemma str_decimal_literal_digits:
  assumes "list_all is_digit s" and "s \<noteq> []"
  shows "str_decimal_literal s = Some (round64 (of_int (digits_value s)))"
proof -
  from assms obtain c cs where s: "s = c # cs" and c: "is_digit c"
    by (cases s) auto
  from digit_not_sign [OF c] have np: "\<not> prefix ''-'' s" "\<not> prefix ''+'' s" "\<not> prefix ''Infinity'' s"
    by (auto simp: s)
  then have ap: "after_prefix ''-'' s = None" "after_prefix ''+'' s = None"
    by (simp_all add: after_prefix_def)
  show ?thesis
    unfolding str_decimal_literal_def ap Let_def
    using np unsigned_decimal_digits [OF assms] by simp
qed

lemma parseFloat_digits:
  assumes "list_all is_digit s" and "s \<noteq> []"
  shows "parseFloat s = round64 (of_int (digits_value s))"
proof -
  from assms obtain c cs where s: "s = c # cs" and c: "is_digit c"
    by (cases s) auto
  have "trimStart s = s" using trimStart_digit [OF c, of cs] by (simp add: s)
  then show ?thesis
    by (simp add: parseFloat_def str_decimal_literal_digits [OF assms])
qed

lemma round_half_even_int: "round_half_even (of_int m) = m"
  by (simp add: round_half_even_def)

lemma round64_exact:
  assumes "0 < a" and "a = of_int m * 2 powi (max (ilog2 a) (- 1022) - 52)"
    and "a < 2 powi 1024"
  shows "round64 a = Fin a"
proof -
  let ?ulp = "(2::rat) powi (max (ilog2 a) (- 1022) - 52)"
  have "?ulp \<noteq> 0" by simp
  with assms(2) have "a / ?ulp = of_int m"
    by (metis nonzero_mult_div_cancel_right)
  then have "of_int (round_half_even (a / ?ulp)) * ?ulp = a"
    using assms(2) by (simp add: round_half_even_int)
  with assms(1,3) show ?thesis
    by (simp add: round64_def Let_def)
qed

lemma two_powi_shift:
  assumes "e \<le> n"
  shows "(of_int (k * 2 ^ nat (n - e)) :: rat) * 2 powi (e - n) = of_int k"
proof -
  have "(2::rat) powi (e - n) = 2 powi (- (n - e))"
    by simp
  also have "\<dots> = inverse (2 powi (n - e))"
    by (rule power_int_minus)
  also have "\<dots> = inverse (2 ^ nat (n - e))"
    using assms by (simp add: power_int_nonneg_exp)
  finally show ?thesis by simp
qed

lemma round64_int:
  assumes "0 \<le> k" and "k < 2 ^ 53"
  shows "round64 (of_int k) = Fin (of_int k)"
proof (cases "k = 0")
  case True
  then show ?thesis by (simp add: round64_def)
next
  case False
  with assms have pos: "0 < k" by simp
  then have one: "(1::rat) \<le> of_int k" by simp
  have e: "ilog2 (of_int k) = bitlen k - 1"
    using one by (simp add: ilog2_def)
  have "bitlen k \<le> 53"
    using assms(2) by (simp add: bitlen_le_iff_power)
  moreover have "1 \<le> bitlen k"
    using pos by (simp add: bitlen_ge_iff_power)
  ultimately have range: "0 \<le> ilog2 (of_int k)" "ilog2 (of_int k) \<le> 52"
    by (simp_all add: e)
  then have mx: "max (ilog2 (of_int k)) (- 1022) = ilog2 (of_int k)" by simp
  have "(of_int k :: rat) < 2 ^ 53" using assms(2) by (metis of_int_less_numeral_power_cancel_iff)
  also have "\<dots> < 2 powi 1024" by (simp add: power_int_def)
  finally have small: "(of_int k :: rat) < 2 powi 1024" .
  show ?thesis
  proof (rule round64_exact [where m = "k * 2 ^ nat (52 - ilog2 (of_int k))"])
    show "(0::rat) < of_int k" using pos by simp
    show "(of_int k :: rat) = of_int (k * 2 ^ nat (52 - ilog2 (of_int k)))
            * 2 powi (max (ilog2 (of_int k)) (- 1022) - 52)"
      unfolding mx using two_powi_shift [OF range(2), of k] by simp
    show "(of_int k :: rat) < 2 powi 1024" by (rule small)
  qed
qed

lemma round64_half:
  assumes "0 \<le> k" and "k < 2 ^ 53"
  shows "round64 (of_int k / 2) = Fin (of_int k / 2)"
proof (cases "k = 0")
  case True
  then show ?thesis by (simp add: round64_def)
next
  case False
  with assms have pos: "0 < k" by simp
  let ?a = "of_int k / 2 :: rat"
  have range: "- 1 \<le> ilog2 ?a \<and> ilog2 ?a \<le> 51"
  proof (cases "k = 1")
    case True
    have "bitlen 1 = 1" using bitlen_twopow_add_eq [of 0 0] by simp
    with True show ?thesis by (simp add: ilog2_def)
  next
    case False
    with pos have k2: "2 \<le> k" by simp
    then have "(1::rat) \<le> ?a" by simp
    moreover have "\<lfloor>?a\<rfloor> = k div 2"
      using floor_divide_of_int_eq [of k 2, where ?'a = rat] by simp
    ultimately have e: "ilog2 ?a = bitlen (k div 2) - 1"
      by (simp add: ilog2_def)
    have "k div 2 < 2 ^ 52" using assms(2) by simp
    then have "bitlen (k div 2) \<le> 52" by (simp add: bitlen_le_iff_power)
    moreover have "1 \<le> k div 2" using k2 by simp
    then have "1 \<le> bitlen (k div 2)" by (simp add: bitlen_ge_iff_power)
    ultimately show ?thesis by (simp add: e)
  qed
  then have mx: "max (ilog2 ?a) (- 1022) = ilog2 ?a" by simp
  have "(of_int k :: rat) < 2 ^ 53" using assms(2) by (metis of_int_less_numeral_power_cancel_iff)
  then have "?a < 2 ^ 53" using pos by simp
  also have "\<dots> < 2 powi 1024" by (simp add: power_int_def)
  finally have small: "?a < 2 powi 1024" .
  from range have le: "ilog2 ?a \<le> 51" by simp
  have shift: "(of_int (k * 2 ^ nat (51 - ilog2 ?a)) :: rat) * 2 powi (ilog2 ?a - 51) = of_int k"
    by (rule two_powi_shift [OF le])
  have "(2::rat) powi (ilog2 ?a - 52) = 2 powi (ilog2 ?a - 51) / 2"
    using power_int_add [of "2::rat" "ilog2 ?a - 51" "- 1"] by simp
  with shift have eq: "?a = of_int (k * 2 ^ nat (51 - ilog2 ?a)) * 2 powi (ilog2 ?a - 52)"
    by simp
  show ?thesis
  proof (rule round64_exact [where m = "k * 2 ^ nat (51 - ilog2 ?a)"])
    show "0 < ?a" using pos by simp
    show "?a = of_int (k * 2 ^ nat (51 - ilog2 ?a)) * 2 powi (max (ilog2 ?a) (- 1022) - 52)"
      unfolding mx by (rule eq)
    show "?a < 2 powi 1024" by (rule small)
  qed
qed

section \<open>Dose adjustment\<close>

lemma one_decimal_nonempty: "one_decimal n \<noteq> []"
  by (simp add: one_decimal_def Let_def)

lemma toFixed1_nonempty: "toFixed1 x \<noteq> Text []"
  by (cases x) (simp_all add: toFixed1_def one_decimal_nonempty)

lemma toFixed1_tenths:
  assumes "t < 10 ^ 22"
  shows "toFixed1 (Fin (of_nat t / 10)) = Text (one_decimal t)"
proof -
  let ?q = "of_nat t / 10 :: rat"
  have nonneg: "0 \<le> ?q" by simp
  have "(of_nat t :: rat) < 10 ^ 22"
    using assms by (metis of_nat_less_numeral_power_cancel_iff)
  then have small: "\<not> 10 ^ 21 \<le> \<bar>?q\<bar>" by simp
  have "10 * \<bar>?q\<bar> + 1 / 2 = of_int (int t) + 1 / 2" by simp
  then have "\<lfloor>10 * \<bar>?q\<bar> + 1 / 2\<rfloor> = int t"
    by (simp only:) (simp add: floor_unique)
  with small nonneg show ?thesis
    by (simp add: toFixed1_def del: abs_of_nonneg)
qed

lemma doseModifier_category: "doseModifier label = category_modifier (classify label)"
  by (simp add: doseModifier_def category_modifier_def classify_def riskMeta_def Let_def
      meta_category_def meta_toxic_def meta_ineffective_def meta_adjust_def meta_safe_def
      meta_unknown_def)

lemma js_times_Fin: "js_times (Fin a) (Fin b) = round64 (a * b)"
  by (simp add: js_times_def)

lemma round64_zero: "round64 0 = Fin 0"
  by (simp add: round64_def)

lemma times_modifier_tenths:
  assumes "0 \<le> k" and "k < 2 ^ 53"
  shows "js_times (round64 (of_int k)) (category_modifier c)
           = Fin (of_nat (nat k * category_tenths c) / 10)"
proof -
  note whole = round64_int [OF assms]
  have half: "round64 (of_int k * (1 / 2)) = Fin (of_int k / 2)"
    using round64_half [OF assms] by simp
  have k: "(of_nat (nat k) :: rat) = of_int k"
    using assms(1) by simp
  show ?thesis
  proof (cases c)
    case CriticalToxic
    then show ?thesis
      by (simp add: whole js_times_Fin round64_zero category_modifier_def category_tenths_def)
  next
    case CriticalIneffective
    then show ?thesis
      by (simp add: whole js_times_Fin round64_zero category_modifier_def category_tenths_def)
  next
    case Adjust
    then show ?thesis
      by (simp add: whole js_times_Fin half round64_half [OF assms] category_modifier_def
          category_tenths_def k)
  next
    case Safe
    then show ?thesis
      by (simp add: whole js_times_Fin category_modifier_def category_tenths_def k)
  next
    case Unknown
    then show ?thesis
      by (simp add: whole js_times_Fin category_modifier_def category_tenths_def k)
  qed
qed

lemma calculatedDose_digits:
  assumes "s \<noteq> []" and "list_all is_digit s" and "digits_value s < 2 ^ 53"
  shows "calculatedDose label s
           = Some (Text (one_decimal (nat (digits_value s) * category_tenths (classify label))))"
proof -
  let ?k = "digits_value s"
  let ?c = "classify label"
  have k0: "0 \<le> ?k" by (rule digits_value_nonneg)
  have "nat ?k < 2 ^ 53" using assms(3) k0 by (simp add: nat_less_iff)
  moreover have "category_tenths ?c \<le> 10" by (cases ?c) (simp_all add: category_tenths_def)
  ultimately have "nat ?k * category_tenths ?c < 2 ^ 53 * 10"
    by (meson le_less_trans less_le_trans mult_le_mono2 mult_less_mono1 nat_mult_less_cancel_disj
        not_less zero_less_numeral mult_less_le_imp_less zero_le)
  also have "\<dots> < (10::nat) ^ 22" by simp
  finally have small: "nat ?k * category_tenths ?c < 10 ^ 22" .
  have "toFixed1 (js_times (parseFloat s) (doseModifier label))
      = toFixed1 (Fin (of_nat (nat ?k * category_tenths ?c) / 10))"
    by (simp only: parseFloat_digits [OF assms(2,1)] doseModifier_category
        times_modifier_tenths [OF k0 assms(3)])
  also have "\<dots> = Text (one_decimal (nat ?k * category_tenths ?c))"
    by (rule toFixed1_tenths [OF small])
  finally show ?thesis
    using assms(1) by (simp add: calculatedDose_def)
qed

lemma adjusted_dose_cell_nonempty:
  assumes "s \<noteq> []"
  shows "adjusted_dose_cell label s
          = Milligrams (toFixed1 (js_times (parseFloat s) (category_modifier (classify label))))"
  using assms
  by (simp add: adjusted_dose_cell_def calculatedDose_def doseModifier_category
      toFixed1_nonempty)

text \<open>
  A non-empty string that does not start with a number is outside what the number field
  delivers; on such a string the expression gives the text NaN, not the dash.
\<close>

lemma non_numeric_dose:
  assumes "s \<noteq> []" and "parseFloat s = NaN"
  shows "adjusted_dose_cell label s = Milligrams (Text ''NaN'')"
  using adjusted_dose_cell_nonempty [OF assms(1), of label] assms(2)
  by (simp add: js_times_def toFixed1_def)

text \<open>
  Claim C1, as amended. For every label and every dose string: the empty string renders the
  placeholder; the modifier is 0 for Critical-Toxic and Critical-Ineffective, one half for
  Adjust and 1 for Safe and for Unknown alike, never undefined; a string that parses as a
  number renders the one-decimal text of the parsed Number times the modifier; and for a
  string of decimal digits that denotes \<open>n < 2\<^sup>5\<^sup>3\<close> this text is exactly \<open>n\<close> times the
  modifier with one digit after the point, so that a computed zero is the text \<^verbatim>\<open>0.0\<close>,
  not the placeholder.
\<close>

theorem dose_calculator:
  "adjusted_dose_cell label [] = NoResult
   \<and> doseModifier label = category_modifier (classify label)
   \<and> (s \<noteq> [] \<and> parseFloat s \<noteq> NaN \<longrightarrow>
        adjusted_dose_cell label s
          = Milligrams (toFixed1 (js_times (parseFloat s) (category_modifier (classify label)))))
   \<and> (s \<noteq> [] \<and> list_all is_digit s \<and> digits_value s < 2 ^ 53 \<longrightarrow>
        adjusted_dose_cell label s
          = Milligrams (Text (one_decimal (nat (digits_value s)
                                           * category_tenths (classify label)))))"
proof -
  have empty: "adjusted_dose_cell label [] = NoResult"
    by (simp add: adjusted_dose_cell_def calculatedDose_def)
  have digits: "adjusted_dose_cell label s
          = Milligrams (Text (one_decimal (nat (digits_value s)
                                           * category_tenths (classify label))))"
    if "s \<noteq> []" "list_all is_digit s" "digits_value s < 2 ^ 53"
    using calculatedDose_digits [OF that]
    by (simp add: adjusted_dose_cell_def one_decimal_nonempty)
  from empty adjusted_dose_cell_nonempty [of s label] digits show ?thesis
    by (simp add: doseModifier_category)
qed

text \<open>
  The examples of the specification that hold: 100 under Adjust gives 50.0, 100 under
  Critical-Toxic gives 0.0, and the end-to-end example, 10 under Adjust, gives 5.0.
\<close>

theorem dose_calculator_witness:
  "adjusted_dose_cell (Some ''Adjust Dose'') ''100'' = Milligrams (Text ''50.0'')
   \<and> adjusted_dose_cell (Some ''Toxic'') ''100'' = Milligrams (Text ''0.0'')
   \<and> adjusted_dose_cell (Some ''Ineffective'') ''100'' = Milligrams (Text ''0.0'')
   \<and> adjusted_dose_cell (Some ''Safe'') ''100'' = Milligrams (Text ''100.0'')
   \<and> adjusted_dose_cell (Some ''Adjust Dose'') ''10'' = Milligrams (Text ''5.0'')
   \<and> adjusted_dose_cell (Some ''Safe'') [] = NoResult"
proof -
  have d: "list_all is_digit ''100''" "digits_value ''100'' = 100"
    "list_all is_digit ''10''" "digits_value ''10'' = 10"
    by (simp_all add: is_digit_def digits_value_def digit_value_def)
  have c: "classify (Some ''Adjust Dose'') = Adjust" "classify (Some ''Toxic'') = CriticalToxic"
    "classify (Some ''Ineffective'') = CriticalIneffective" "classify (Some ''Safe'') = Safe"
    by (simp_all add: classify_def riskMeta_def or_empty_def toLowerCase_def toLowerChar_def
        meta_category_def meta_toxic_def meta_ineffective_def meta_adjust_def meta_safe_def
        meta_unknown_def)
  have t: "one_decimal 500 = ''50.0''" "one_decimal 0 = ''0.0''" "one_decimal 1000 = ''100.0''"
    "one_decimal 50 = ''5.0''"
    by (simp_all add: one_decimal_def decimal.simps digit_char_def)
  have digits: "adjusted_dose_cell label s
      = Milligrams (Text (one_decimal (nat (digits_value s) * category_tenths (classify label))))"
    if "s \<noteq> []" "list_all is_digit s" "digits_value s < 2 ^ 53" for label s
    using dose_calculator [of label s] that by blast
  have empty: "adjusted_dose_cell label [] = NoResult" for label
    using dose_calculator [of label "[]"] by blast
  have "adjusted_dose_cell (Some ''Adjust Dose'') ''100'' = Milligrams (Text ''50.0'')"
    by (subst digits) (simp_all add: d c t category_tenths_def is_digit_def)
  moreover have "adjusted_dose_cell (Some ''Toxic'') ''100'' = Milligrams (Text ''0.0'')"
    by (subst digits) (simp_all add: d c t category_tenths_def is_digit_def)
  moreover have "adjusted_dose_cell (Some ''Ineffective'') ''100'' = Milligrams (Text ''0.0'')"
    by (subst digits) (simp_all add: d c t category_tenths_def is_digit_def)
  moreover have "adjusted_dose_cell (Some ''Safe'') ''100'' = Milligrams (Text ''100.0'')"
    by (subst digits) (simp_all add: d c t category_tenths_def is_digit_def)
  moreover have "adjusted_dose_cell (Some ''Adjust Dose'') ''10'' = Milligrams (Text ''5.0'')"
    by (subst digits) (simp_all add: d c t category_tenths_def is_digit_def)
  moreover note empty [of "Some ''Safe''"]
  ultimately show ?thesis by blast
qed

text \<open>
  Claim C1, as stated, fails for a result classified Unknown: the dose 100 is shown
  unchanged, as 100.0, not as the placeholder.
\<close>

theorem unknown_dose_is_shown:
  "classify (Some ''Unknown'') = Unknown
   \<and> adjusted_dose_cell (Some ''Unknown'') ''100'' = Milligrams (Text ''100.0'')
   \<and> adjusted_dose_cell (Some ''Unknown'') ''100'' \<noteq> NoResult"
proof -
  have d: "list_all is_digit ''100''" "digits_value ''100'' = 100"
    by (simp_all add: is_digit_def digits_value_def digit_value_def)
  have c: "classify (Some ''Unknown'') = Unknown"
    by (simp add: classify_def riskMeta_def or_empty_def toLowerCase_def toLowerChar_def
        meta_category_def meta_toxic_def meta_ineffective_def meta_adjust_def meta_safe_def
        meta_unknown_def)
  have t: "one_decimal 1000 = ''100.0''"
    by (simp add: one_decimal_def decimal.simps digit_char_def)
  from calculatedDose_digits [of "''100''" "Some ''Unknown''"] show ?thesis
    by (simp add: adjusted_dose_cell_def d c t category_tenths_def is_digit_def)
qed

end
